theory Spec2Isabelle
  imports Main "HOL-Library.Word"
begin

section \<open>JavaScript strings\<close>

text \<open>
  A JavaScript string is a sequence of 16-bit code units; \<open>length\<close>, \<open>slice\<close>,
  \<open>substring\<close>, \<open>split\<close> and regular expressions without the \<open>u\<close> flag all count
  code units. ASCII literals of the source are written \<open>of_ascii ''...''\<close>; the
  box-drawing characters of the tree rendering are given by their code points.
\<close>

type_synonym code_unit = "16 word"
type_synonym jsstring = "code_unit list"

definition of_ascii :: "string \<Rightarrow> jsstring" where
  "of_ascii s = map of_char s"

definition NL :: code_unit where "NL = 0x0A"
definition CR :: code_unit where "CR = 0x0D"
definition SPACE :: code_unit where "SPACE = 0x20"
definition DOT :: code_unit where "DOT = 0x2E"
definition COLON :: code_unit where "COLON = 0x3A"

text \<open>
  The decimal digits of an integer: what a template literal renders an integral
  number of magnitude below \<open>1e21\<close> to. Lengths, counts and line counts are such.
\<close>

definition digit :: "nat \<Rightarrow> code_unit" where
  "digit d = of_nat (48 + d)"

function show_nat :: "nat \<Rightarrow> jsstring" where
  "show_nat n = (if n < 10 then [digit n] else show_nat (n div 10) @ [digit (n mod 10)])"
  by pat_completeness auto
termination
  by (relation "measure id") auto

declare show_nat.simps [simp del]

definition show_int :: "int \<Rightarrow> jsstring" where
  "show_int i = (if i < 0 then of_ascii ''-'' @ show_nat (nat (- i)) else show_nat (nat i))"

text \<open>\<open>s.lastIndexOf(c)\<close> for a one-character needle: \<open>-1\<close> when absent.\<close>

definition lastIndexOf :: "jsstring \<Rightarrow> code_unit \<Rightarrow> int" where
  "lastIndexOf s c =
     (if c \<in> set s then int (length s) - 1 - int (length (takeWhile (\<lambda>x. x \<noteq> c) (rev s)))
      else - 1)"

text \<open>\<open>s.substring(i)\<close>: a negative start counts as 0.\<close>

definition substring_from :: "jsstring \<Rightarrow> int \<Rightarrow> jsstring" where
  "substring_from s i = drop (nat (max 0 i)) s"

text \<open>\<open>s.slice(0, n)\<close> for an integer \<open>n\<close> (a negative end counts from the end).\<close>

definition slice0 :: "'a list \<Rightarrow> int \<Rightarrow> 'a list" where
  "slice0 s n = (if n < 0 then take (nat (int (length s) + n)) s else take (nat n) s)"

text \<open>\<open>s.split("\n")\<close>: never empty, \<open>"".split("\n") = [""]\<close>.\<close>

fun split_nl :: "jsstring \<Rightarrow> jsstring list" where
  "split_nl [] = [[]]"
| "split_nl (c # cs) =
     (if c = NL then [] # split_nl cs
      else (case split_nl cs of [] \<Rightarrow> [[c]] | l # ls \<Rightarrow> (c # l) # ls))"

text \<open>\<open>parts.join(sep)\<close>.\<close>

fun join :: "jsstring \<Rightarrow> jsstring list \<Rightarrow> jsstring" where
  "join sep [] = []"
| "join sep [x] = x"
| "join sep (x # y # ys) = x @ sep @ join sep (y # ys)"

text \<open>\<open>hay.includes(needle)\<close>.\<close>

fun starts_with :: "jsstring \<Rightarrow> jsstring \<Rightarrow> bool" where
  "starts_with hay [] = True"
| "starts_with [] (n # ns) = False"
| "starts_with (h # hs) (n # ns) = (h = n \<and> starts_with hs ns)"

fun includes_str :: "jsstring \<Rightarrow> jsstring \<Rightarrow> bool" where
  "includes_str [] needle = (needle = [])"
| "includes_str (h # hs) needle = (starts_with (h # hs) needle \<or> includes_str hs needle)"

text \<open>
  \<open>toLowerCase\<close> is a library function over the whole of Unicode; the functions below
  take it as a parameter \<open>lower\<close>. Its restriction to ASCII letters is used for concrete
  evaluations.
\<close>

definition ascii_lower_unit :: "code_unit \<Rightarrow> code_unit" where
  "ascii_lower_unit c = (if 0x41 \<le> c \<and> c \<le> 0x5A then c + 0x20 else c)"

definition ascii_toLowerCase :: "jsstring \<Rightarrow> jsstring" where
  "ascii_toLowerCase s = map ascii_lower_unit s"

text \<open>The extension test of the scanner: \<open>path.substring(path.lastIndexOf("."))\<close>.\<close>

definition file_ext :: "jsstring \<Rightarrow> jsstring" where
  "file_ext p = substring_from p (lastIndexOf p DOT)"

section \<open>Findings\<close>

text \<open>
  A finding object. Fields that only some producers set (\<open>match\<close> and \<open>snippet\<close> in
  the library scanner, \<open>source\<close> in the scan route) are optional.
\<close>

text \<open>
  The \<open>line\<close> of a finding is a JavaScript value: the scanners set it to a line
  count, and the scan route copies whatever the model reply holds. The code only ever
  renders it in template literals. \<open>Number n\<close> is an integral number of magnitude below
  \<open>1e21\<close>, which is rendered as its decimal digits; every other value (a larger
  or fractional number, a string, \<open>null\<close>, a missing field) is \<open>Other s\<close>, carried
  by the text \<open>s\<close> that a template literal renders it to (\<open>1e+21\<close>, \<open>1.5\<close>,
  \<open>null\<close>, \<open>undefined\<close>, the characters of a string).
\<close>

datatype line_value = Number int | Other jsstring

fun template :: "line_value \<Rightarrow> jsstring" where
  "template (Number n) = show_int n"
| "template (Other s) = s"

record finding =
  fid :: jsstring
  ffile :: jsstring
  line :: line_value
  ftype :: jsstring
  severity :: jsstring
  title :: jsstring
  description :: jsstring
  fix_text :: jsstring
  matched :: "jsstring option"
  snippet :: "jsstring option"
  confidence :: jsstring
  source :: "jsstring option"

subsection \<open>Deduplication\<close>

text \<open>The key \<open>`${f.file}:${f.line}:${f.title}`\<close>.\<close>

definition dedup_key :: "finding \<Rightarrow> jsstring" where
  "dedup_key f = ffile f @ [COLON] @ template (line f) @ [COLON] @ title f"

text \<open>The filter with its \<open>seen\<close> set, threaded through the list.\<close>

fun dedup_from :: "jsstring set \<Rightarrow> finding list \<Rightarrow> finding list" where
  "dedup_from seen [] = []"
| "dedup_from seen (f # fs) =
     (if dedup_key f \<in> seen then dedup_from seen fs
      else f # dedup_from (insert (dedup_key f) seen) fs)"

definition deduplicateFindings :: "finding list \<Rightarrow> finding list" where
  "deduplicateFindings findings = dedup_from {} findings"

subsection \<open>The final severity filter of the scan route\<close>

definition CRITICAL :: jsstring where "CRITICAL = of_ascii ''critical''"
definition HIGH :: jsstring where "HIGH = of_ascii ''high''"
definition MEDIUM :: jsstring where "MEDIUM = of_ascii ''medium''"
definition LOW :: jsstring where "LOW = of_ascii ''low''"

definition keeps :: "finding \<Rightarrow> bool" where
  "keeps f = (severity f = CRITICAL \<or> severity f = HIGH \<or> confidence f = HIGH)"

definition filteredFindings :: "finding list \<Rightarrow> finding list" where
  "filteredFindings allFindings = filter keeps allFindings"

text \<open>
  The reading of "keep the first occurrence of each key" that the deduplication is
  compared with: position \<open>i\<close> survives when no earlier position has the same key.
\<close>

definition first_occurrences :: "('a \<Rightarrow> 'k) \<Rightarrow> 'a list \<Rightarrow> 'a list" where
  "first_occurrences key xs =
     map (\<lambda>i. xs ! i) (filter (\<lambda>i. key (xs ! i) \<notin> key ` set (take i xs)) [0..<length xs])"

section \<open>The source-hosting collaborator\<close>

text \<open>
  An error thrown by the client: an optional HTTP status and a message. What
  \<open>repos.getContent\<close> resolves to: a directory listing (an array) or a single item.
\<close>

record js_error =
  err_status :: "nat option"
  err_message :: jsstring

record item =
  item_name :: jsstring
  item_path :: jsstring
  item_type :: jsstring
  item_size :: nat
  item_content :: jsstring
  item_sha :: jsstring

datatype remote_data = Listing "item list" | Single item

type_synonym remote = "jsstring \<Rightarrow> js_error + remote_data"

definition FILE :: jsstring where "FILE = of_ascii ''file''"
definition DIR :: jsstring where "DIR = of_ascii ''dir''"

text \<open>\<open>data.type\<close>: \<open>undefined\<close> on an array.\<close>

fun data_type :: "remote_data \<Rightarrow> jsstring option" where
  "data_type (Listing xs) = None"
| "data_type (Single it) = Some (item_type it)"

section \<open>Batched content fetcher\<close>

record file_record =
  path :: jsstring
  content :: "jsstring option"
  fsize :: "nat option"
  sha :: "jsstring option"
  error :: "jsstring option"

text \<open>
  The body of the \<open>try\<close> of \<open>fetchFileContent\<close>: the remote call may throw, and a
  non-file throws \<open>Path "..." is not a file\<close>. The parameter \<open>decode\<close> is
  \<open>Buffer.from(_, "base64").toString("utf-8")\<close>, applied to the content string that
  the remote gives for a file.
\<close>

definition fetchFileContent_try ::
  "remote \<Rightarrow> (jsstring \<Rightarrow> jsstring) \<Rightarrow> jsstring \<Rightarrow> js_error + file_record" where
  "fetchFileContent_try getContent decode p =
     (case getContent p of
        Inl e \<Rightarrow> Inl e
      | Inr data \<Rightarrow>
          (case data of
             Single it \<Rightarrow>
               if item_type it \<noteq> FILE
               then Inl \<lparr>err_status = None,
                         err_message = of_ascii ''Path \"'' @ p @ of_ascii ''\" is not a file''\<rparr>
               else Inr \<lparr>path = p, content = Some (decode (item_content it)),
                         fsize = Some (item_size it), sha = Some (item_sha it), error = None\<rparr>
           | Listing xs \<Rightarrow>
               Inl \<lparr>err_status = None,
                    err_message = of_ascii ''Path \"'' @ p @ of_ascii ''\" is not a file''\<rparr>))"

text \<open>The \<open>catch\<close>: every error becomes a record with null content.\<close>

definition fetchFileContent ::
  "remote \<Rightarrow> (jsstring \<Rightarrow> jsstring) \<Rightarrow> jsstring \<Rightarrow> file_record" where
  "fetchFileContent getContent decode p =
     (case fetchFileContent_try getContent decode p of
        Inr r \<Rightarrow> r
      | Inl e \<Rightarrow>
          if err_status e = Some 404
          then \<lparr>path = p, content = None, fsize = None, sha = None,
                error = Some (of_ascii ''File not found'')\<rparr>
          else \<lparr>path = p, content = None, fsize = None, sha = None,
                error = Some (err_message e)\<rparr>)"

text \<open>
  The chunks \<open>paths.slice(i, i + n)\<close> for \<open>i = 0, n, 2n, ...\<close>. With \<open>n = 0\<close> the
  loop of the source never advances.
\<close>

function chunks :: "nat \<Rightarrow> 'a list \<Rightarrow> 'a list list" where
  "chunks n xs = (if n = 0 \<or> xs = [] then [] else take n xs # chunks n (drop n xs))"
  by pat_completeness auto
termination
  by (relation "measure (\<lambda>(n, xs). length xs)") auto

declare chunks.simps [simp del]

text \<open>
  \<open>fetchFilesBatch\<close>: each chunk is awaited as a whole (\<open>Promise.all\<close> keeps the
  order of its inputs) and appended. \<open>None\<close> is the loop that never ends
  (\<open>maxConcurrent = 0\<close> on a non-empty list).
\<close>

definition fetchFilesBatch ::
  "remote \<Rightarrow> (jsstring \<Rightarrow> jsstring) \<Rightarrow> jsstring list \<Rightarrow> nat \<Rightarrow> file_record list option" where
  "fetchFilesBatch getContent decode paths maxConcurrent =
     (if maxConcurrent = 0 \<and> paths \<noteq> [] then None
      else Some (concat (map (map (fetchFileContent getContent decode))
                             (chunks maxConcurrent paths))))"

text \<open>The chat route's \<open>fetchFileContents\<close>: the same loop with the width fixed at 5.\<close>

definition fetchFileContents_one ::
  "remote \<Rightarrow> (jsstring \<Rightarrow> jsstring) \<Rightarrow> jsstring \<Rightarrow> file_record" where
  "fetchFileContents_one getContent decode p =
     (case getContent p of
        Inl e \<Rightarrow> \<lparr>path = p, content = None, fsize = None, sha = None,
                  error = Some (err_message e)\<rparr>
      | Inr data \<Rightarrow>
          if data_type data \<noteq> Some FILE
          then \<lparr>path = p, content = None, fsize = None, sha = None,
                error = Some (of_ascii ''Not a file'')\<rparr>
          else (case data of
                  Single it \<Rightarrow>
                    \<lparr>path = p, content = Some (decode (item_content it)),
                     fsize = Some (item_size it), sha = None, error = None\<rparr>
                | Listing xs \<Rightarrow>
                    \<lparr>path = p, content = None, fsize = None, sha = None,
                     error = Some (of_ascii ''Not a file'')\<rparr>))"

definition fetchFileContents ::
  "remote \<Rightarrow> (jsstring \<Rightarrow> jsstring) \<Rightarrow> jsstring list \<Rightarrow> file_record list" where
  "fetchFileContents getContent decode paths =
     concat (map (map (fetchFileContents_one getContent decode)) (chunks 5 paths))"

text \<open>Whether a path resolves to a file at the remote.\<close>

definition resolves_to_file :: "remote \<Rightarrow> jsstring \<Rightarrow> bool" where
  "resolves_to_file getContent p =
     (case getContent p of Inl e \<Rightarrow> False | Inr data \<Rightarrow> data_type data = Some FILE)"

section \<open>Tree acquisition\<close>

text \<open>A tree node; \<open>children\<close> is absent on files and on directories at the depth cap.\<close>

datatype tree_node =
  Node (node_name: jsstring) (node_path: jsstring) (node_type: jsstring) (node_size: nat)
       (children: "tree_node list option")

text \<open>
  \<open>Array.prototype.sort\<close> is stable; it is modelled as a stable insertion sort with the
  comparator. The comparator of the source orders by \<open>type\<close> first and calls
  \<open>localeCompare\<close>, a library function taken as a parameter, on equal types.
\<close>

fun insert_by :: "('a \<Rightarrow> 'a \<Rightarrow> int) \<Rightarrow> 'a \<Rightarrow> 'a list \<Rightarrow> 'a list" where
  "insert_by cmp x [] = [x]"
| "insert_by cmp x (y # ys) = (if cmp x y \<le> 0 then x # y # ys else y # insert_by cmp x ys)"

definition sort_by :: "('a \<Rightarrow> 'a \<Rightarrow> int) \<Rightarrow> 'a list \<Rightarrow> 'a list" where
  "sort_by cmp xs = foldr (insert_by cmp) xs []"

definition compare_nodes :: "(jsstring \<Rightarrow> jsstring \<Rightarrow> int) \<Rightarrow> tree_node \<Rightarrow> tree_node \<Rightarrow> int" where
  "compare_nodes localeCompare a b =
     (if node_type a = node_type b then localeCompare (node_name a) (node_name b)
      else if node_type a = DIR then - 1 else 1)"

text \<open>
  The recursive listing, with the skip list and the depth cap as parameters: the
  library version and the route version differ in both. A remote error degrades the
  subtree to an empty list.
\<close>

function build_tree ::
  "jsstring list \<Rightarrow> nat \<Rightarrow> (jsstring \<Rightarrow> jsstring \<Rightarrow> int) \<Rightarrow> remote \<Rightarrow> jsstring \<Rightarrow> nat
     \<Rightarrow> tree_node list" where
  "build_tree skipDirs maxDepth localeCompare getContent p depth =
     (if depth > maxDepth then []
      else (case getContent p of
              Inl e \<Rightarrow> []
            | Inr contents \<Rightarrow>
                sort_by (compare_nodes localeCompare)
                  (map (\<lambda>it. Node (item_name it) (item_path it) (item_type it) (item_size it)
                          (if item_type it = DIR \<and> depth < maxDepth
                           then Some (build_tree skipDirs maxDepth localeCompare getContent
                                        (item_path it) (depth + 1))
                           else None))
                     (filter (\<lambda>it. \<not> (item_type it = DIR \<and> item_name it \<in> set skipDirs))
                        (case contents of Listing xs \<Rightarrow> xs | Single it \<Rightarrow> [it])))))"
  by pat_completeness auto
termination
  by (relation "measure (\<lambda>(skipDirs, maxDepth, localeCompare, getContent, p, depth).
                   Suc maxDepth - depth)") auto

declare build_tree.simps [simp del]

text \<open>The library's \<open>buildFileTree\<close>: seven skipped directory names, \<open>maxDepth\<close> defaulting to 5.\<close>

definition LIB_SKIP_DIRS :: "jsstring list" where
  "LIB_SKIP_DIRS = map of_ascii
     [''node_modules'', ''.git'', ''dist'', ''build'', ''.next'', ''__pycache__'', ''vendor'']"

definition buildFileTree ::
  "(jsstring \<Rightarrow> jsstring \<Rightarrow> int) \<Rightarrow> remote \<Rightarrow> jsstring \<Rightarrow> nat \<Rightarrow> nat \<Rightarrow> tree_node list" where
  "buildFileTree localeCompare getContent p depth maxDepth =
     build_tree LIB_SKIP_DIRS maxDepth localeCompare getContent p depth"

text \<open>The fetch route's \<open>buildFileTree\<close>: nine skipped names, the cap fixed at 4.\<close>

definition ROUTE_SKIP_DIRS :: "jsstring list" where
  "ROUTE_SKIP_DIRS = map of_ascii
     [''node_modules'', ''.git'', ''dist'', ''build'', ''.next'', ''__pycache__'', ''vendor'',
      ''.cache'', ''coverage'']"

definition route_buildFileTree ::
  "(jsstring \<Rightarrow> jsstring \<Rightarrow> int) \<Rightarrow> remote \<Rightarrow> jsstring \<Rightarrow> nat \<Rightarrow> tree_node list" where
  "route_buildFileTree localeCompare getContent p depth =
     build_tree ROUTE_SKIP_DIRS 4 localeCompare getContent p depth"

text \<open>
  Properties of a tree: every directory node's name avoids a list of names; every
  node's name does; no node lies deeper than \<open>cap\<close>, the top level being depth \<open>d\<close>.
\<close>

fun dirs_avoid :: "jsstring list \<Rightarrow> tree_node list \<Rightarrow> bool" where
  "dirs_avoid names [] = True"
| "dirs_avoid names (Node nm p ty sz ch # rest) =
     ((ty = DIR \<longrightarrow> nm \<notin> set names)
      \<and> (case ch of None \<Rightarrow> True | Some cs \<Rightarrow> dirs_avoid names cs)
      \<and> dirs_avoid names rest)"

fun names_avoid :: "jsstring list \<Rightarrow> tree_node list \<Rightarrow> bool" where
  "names_avoid names [] = True"
| "names_avoid names (Node nm p ty sz ch # rest) =
     (nm \<notin> set names
      \<and> (case ch of None \<Rightarrow> True | Some cs \<Rightarrow> names_avoid names cs)
      \<and> names_avoid names rest)"

fun depth_within :: "nat \<Rightarrow> nat \<Rightarrow> tree_node list \<Rightarrow> bool" where
  "depth_within cap d [] = True"
| "depth_within cap d (Node nm p ty sz ch # rest) =
     (d \<le> cap
      \<and> (case ch of None \<Rightarrow> True | Some cs \<Rightarrow> depth_within cap (Suc d) cs)
      \<and> depth_within cap d rest)"

subsection \<open>Text rendering\<close>

definition MID_CONNECTOR :: jsstring where
  "MID_CONNECTOR = [0x251C, 0x2500, 0x2500, 0x20]"

definition LAST_CONNECTOR :: jsstring where
  "LAST_CONNECTOR = [0x2514, 0x2500, 0x2500, 0x20]"

definition MID_CHILD_PREFIX :: jsstring where
  "MID_CHILD_PREFIX = [0x2502, 0x20, 0x20, 0x20]"

definition LAST_CHILD_PREFIX :: jsstring where
  "LAST_CHILD_PREFIX = [0x20, 0x20, 0x20, 0x20]"

fun treeToString :: "tree_node list \<Rightarrow> jsstring \<Rightarrow> jsstring" where
  "treeToString [] pre = []"
| "treeToString (Node nm p ty sz ch # rest) pre =
     pre @ (if rest = [] then LAST_CONNECTOR else MID_CONNECTOR) @ nm @ [NL]
     @ (case ch of
          None \<Rightarrow> []
        | Some cs \<Rightarrow>
            if length cs > 0
            then treeToString cs (pre @ (if rest = [] then LAST_CHILD_PREFIX else MID_CHILD_PREFIX))
            else [])
     @ treeToString rest pre"

text \<open>The names of the nodes in the order the rendering visits them.\<close>

fun rendered_names :: "tree_node list \<Rightarrow> jsstring list" where
  "rendered_names [] = []"
| "rendered_names (Node nm p ty sz ch # rest) =
     nm # (case ch of None \<Rightarrow> [] | Some cs \<Rightarrow> rendered_names cs) @ rendered_names rest"

fun all_names :: "tree_node list \<Rightarrow> jsstring set" where
  "all_names [] = {}"
| "all_names (Node nm p ty sz ch # rest) =
     insert nm ((case ch of None \<Rightarrow> {} | Some cs \<Rightarrow> all_names cs) \<union> all_names rest)"

text \<open>The flat list of file paths.\<close>

fun getFilePaths :: "tree_node list \<Rightarrow> jsstring \<Rightarrow> jsstring list" where
  "getFilePaths [] basePath = []"
| "getFilePaths (Node nm p ty sz ch # rest) basePath =
     (if ty = FILE then [if basePath \<noteq> [] then basePath @ of_ascii ''/'' @ nm else nm]
      else (case ch of
              None \<Rightarrow> []
            | Some cs \<Rightarrow> getFilePaths cs (if basePath \<noteq> [] then basePath @ of_ascii ''/'' @ nm else nm)))
     @ getFilePaths rest basePath"

section \<open>Relevance selector\<close>

text \<open>
  The regular expression of \<open>extractMentionedFiles\<close>, a connector followed by
  \<open>(.+)$\<close>, applied to one line: the leftmost connector (U+251C or U+2514, then
  U+2500 twice and a space) whose rest of line is non-empty and free of line
  terminators, which \<open>.\<close> does not match.
\<close>

definition is_line_terminator :: "code_unit \<Rightarrow> bool" where
  "is_line_terminator c = (c = 0x0A \<or> c = 0x0D \<or> c = 0x2028 \<or> c = 0x2029)"

fun matchTreeLine :: "jsstring \<Rightarrow> jsstring option" where
  "matchTreeLine [] = None"
| "matchTreeLine (c # cs) =
     (if (c = 0x251C \<or> c = 0x2514) \<and> take 3 cs = [0x2500, 0x2500, 0x20]
         \<and> drop 3 cs \<noteq> [] \<and> \<not> list_ex is_line_terminator (drop 3 cs)
      then Some (drop 3 cs)
      else matchTreeLine cs)"

text \<open>The names the line loop extracts, before the query test.\<close>

definition tree_line_names :: "jsstring \<Rightarrow> jsstring list" where
  "tree_line_names fileTreeString = List.map_filter matchTreeLine (split_nl fileTreeString)"

definition extractMentionedFiles ::
  "(jsstring \<Rightarrow> jsstring) \<Rightarrow> jsstring \<Rightarrow> jsstring \<Rightarrow> jsstring list" where
  "extractMentionedFiles lower query fileTreeString =
     filter (\<lambda>fileName. includes_str (lower query) (lower fileName))
       (tree_line_names fileTreeString)"

text \<open>The route's \<open>findMentionedFiles\<close> is the same loop.\<close>

definition findMentionedFiles ::
  "(jsstring \<Rightarrow> jsstring) \<Rightarrow> jsstring \<Rightarrow> jsstring \<Rightarrow> jsstring list" where
  "findMentionedFiles lower query tree =
     filter (\<lambda>fileName. includes_str (lower query) (lower fileName)) (tree_line_names tree)"

text \<open>
  What the model call and \<open>JSON.parse\<close> come to: the call throws, the content is not
  JSON, it parses to \<open>null\<close>, or it parses to an object whose \<open>files\<close> (a list of
  strings) and \<open>reason\<close> (a string) may each be missing.
\<close>

datatype model_reply =
  CallFailed js_error
| NotJSON
| ParsedNull
| ParsedObject "jsstring list option" "jsstring option"

record selection =
  files :: "jsstring list"
  reason :: "jsstring option"
  tier :: "jsstring option"

definition SyntaxError :: js_error where
  "SyntaxError = \<lparr>err_status = None, err_message = of_ascii ''Unexpected token''\<rparr>"

definition TypeError :: js_error where
  "TypeError = \<lparr>err_status = None, err_message = of_ascii ''Cannot read properties''\<rparr>"

text \<open>
  \<open>getOpenAI()\<close> returns the cached client or constructs it; what it comes to is the
  client, or the error that the constructor throws (it throws when no API key is
  configured).
\<close>

datatype openai_client = OpenAI

text \<open>The \<open>try\<close> body of \<open>analyzeFileSelection\<close>: \<open>parsed.files.slice(0, 15)\<close> throws on \<open>null\<close> and on a missing \<open>files\<close>.\<close>

fun analyzeFileSelection_try :: "model_reply \<Rightarrow> js_error + selection" where
  "analyzeFileSelection_try (CallFailed e) = Inl e"
| "analyzeFileSelection_try NotJSON = Inl SyntaxError"
| "analyzeFileSelection_try ParsedNull = Inl TypeError"
| "analyzeFileSelection_try (ParsedObject None r) = Inl TypeError"
| "analyzeFileSelection_try (ParsedObject (Some fs) r) =
     Inr \<lparr>files = take 15 fs, reason = r, tier = Some (of_ascii ''ai'')\<rparr>"

text \<open>
  \<open>analyzeFileSelection\<close>: the first statement, \<open>const openai = getOpenAI()\<close>, is
  outside the \<open>try\<close> and precedes the explicit tier, so its throw is the throw of
  the selector. \<open>reply\<close> is what the call on the client and \<open>JSON.parse\<close> come to.
\<close>

definition analyzeFileSelection ::
  "(jsstring \<Rightarrow> jsstring) \<Rightarrow> js_error + openai_client \<Rightarrow> model_reply
     \<Rightarrow> jsstring \<Rightarrow> jsstring \<Rightarrow> jsstring \<Rightarrow> jsstring \<Rightarrow> js_error + selection" where
  "analyzeFileSelection lower getOpenAI reply query fileTree owner repo =
     (case getOpenAI of
        Inl e \<Rightarrow> Inl e
      | Inr openai \<Rightarrow>
          Inr (if length (extractMentionedFiles lower query fileTree) > 0
               then \<lparr>files = take 15 (extractMentionedFiles lower query fileTree),
                     reason = Some (of_ascii ''Files explicitly mentioned in query''),
                     tier = Some (of_ascii ''explicit'')\<rparr>
               else (case analyzeFileSelection_try reply of
                       Inr r \<Rightarrow> r
                     | Inl e \<Rightarrow>
                         \<lparr>files = map of_ascii [''README.md'', ''package.json'', ''src/index.js'', ''src/App.jsx''],
                          reason = Some (of_ascii ''Fallback to common entry files''),
                          tier = Some (of_ascii ''fallback'')\<rparr>)))"

text \<open>
  The route's \<open>selectRelevantFiles\<close>: no \<open>tier\<close> field; \<open>parsed.files || []\<close> and
  \<open>parsed.reason || "AI selected"\<close> replace what is missing (or empty). The routes
  construct their client when the module is loaded, before a handler exists, so the
  function itself has no such first statement.
\<close>

fun selectRelevantFiles_try :: "model_reply \<Rightarrow> js_error + selection" where
  "selectRelevantFiles_try (CallFailed e) = Inl e"
| "selectRelevantFiles_try NotJSON = Inl SyntaxError"
| "selectRelevantFiles_try ParsedNull = Inl TypeError"
| "selectRelevantFiles_try (ParsedObject fs r) =
     Inr \<lparr>files = take 15 (case fs of None \<Rightarrow> [] | Some xs \<Rightarrow> xs),
          reason = Some (case r of None \<Rightarrow> of_ascii ''AI selected''
                         | Some t \<Rightarrow> if t = [] then of_ascii ''AI selected'' else t),
          tier = None\<rparr>"

definition selectRelevantFiles ::
  "(jsstring \<Rightarrow> jsstring) \<Rightarrow> model_reply \<Rightarrow> jsstring \<Rightarrow> jsstring \<Rightarrow> jsstring \<Rightarrow> jsstring \<Rightarrow> selection" where
  "selectRelevantFiles lower reply query tree owner repo =
     (if length (findMentionedFiles lower query tree) > 0
      then \<lparr>files = take 15 (findMentionedFiles lower query tree),
            reason = Some (of_ascii ''Files mentioned in query''), tier = None\<rparr>
      else (case selectRelevantFiles_try reply of
              Inr r \<Rightarrow> r
            | Inl e \<Rightarrow>
                \<lparr>files = map of_ascii [''README.md'', ''package.json''],
                 reason = Some (of_ascii ''Fallback to default files''), tier = None\<rparr>))"

section \<open>Context assembler\<close>

text \<open>\<open>Math.ceil(text.length / 4)\<close>, and 0 for an empty text.\<close>

definition CHARS_PER_TOKEN :: int where "CHARS_PER_TOKEN = 4"
definition SAFE_CONTEXT_TOKENS :: int where "SAFE_CONTEXT_TOKENS = 80000"

definition estimateTokens :: "jsstring \<Rightarrow> int" where
  "estimateTokens text =
     (if text = [] then 0 else (int (length text) + CHARS_PER_TOKEN - 1) div CHARS_PER_TOKEN)"

record truncation =
  t_text :: jsstring
  t_truncated :: bool
  originalTokens :: int
  truncatedTokens :: "int option"

definition TRUNCATION_MARKER :: jsstring where
  "TRUNCATION_MARKER = [NL, NL] @ of_ascii ''[... content truncated due to length ...]''"

text \<open>
  \<open>truncateToTokenLimit\<close>. The test \<open>lastNewline > maxChars * 0.8\<close> compares integers
  with four fifths of an integer and is written without the fraction.
\<close>

definition truncateToTokenLimit :: "jsstring \<Rightarrow> int \<Rightarrow> truncation" where
  "truncateToTokenLimit text maxTokens =
     (if estimateTokens text \<le> maxTokens
      then \<lparr>t_text = text, t_truncated = False, originalTokens = estimateTokens text,
            truncatedTokens = None\<rparr>
      else
        (let maxChars = maxTokens * CHARS_PER_TOKEN;
             truncated = slice0 text maxChars;
             lastNewline = lastIndexOf truncated NL;
             cleanTruncated = (if 5 * lastNewline > 4 * maxChars
                               then slice0 truncated lastNewline else truncated)
         in \<lparr>t_text = cleanTruncated @ TRUNCATION_MARKER, t_truncated = True,
              originalTokens = estimateTokens text,
              truncatedTokens = Some (estimateTokens cleanTruncated)\<rparr>))"

record context_assembly =
  context_text :: jsstring
  totalTokens :: int
  includedFiles :: "(jsstring \<times> bool) list"
  skippedFiles :: "jsstring list"

definition fileHeader :: "file_record \<Rightarrow> jsstring" where
  "fileHeader f = [NL] @ of_ascii ''--- FILE: '' @ path f @ of_ascii '' ---'' @ [NL]"

text \<open>\<open>!file.content\<close>: the content is null or the empty string.\<close>

definition no_content :: "file_record \<Rightarrow> bool" where
  "no_content f = (case content f of None \<Rightarrow> True | Some c \<Rightarrow> c = [])"

definition content_of :: "file_record \<Rightarrow> jsstring" where
  "content_of f = (case content f of None \<Rightarrow> [] | Some c \<Rightarrow> c)"

definition fileBlock :: "file_record \<Rightarrow> jsstring" where
  "fileBlock f = fileHeader f @ content_of f @ [NL]"

text \<open>The loop of \<open>buildContextWithLimit\<close> over the remaining files, with its four variables.\<close>

fun buildContext_loop :: "int \<Rightarrow> file_record list \<Rightarrow> context_assembly \<Rightarrow> context_assembly" where
  "buildContext_loop maxTokens [] st = st"
| "buildContext_loop maxTokens (f # fs) st =
     (if no_content f then buildContext_loop maxTokens fs st
      else if totalTokens st + estimateTokens (fileBlock f) > maxTokens
      then (if maxTokens - totalTokens st - 100 > 500
            then st\<lparr>context_text := context_text st @ fileHeader f
                       @ t_text (truncateToTokenLimit (content_of f)
                                   (maxTokens - totalTokens st - 100)) @ [NL],
                    includedFiles := includedFiles st @ [(path f, True)]\<rparr>
            else st\<lparr>skippedFiles := skippedFiles st @ [path f]\<rparr>)
      else buildContext_loop maxTokens fs
             (st\<lparr>context_text := context_text st @ fileBlock f,
                 totalTokens := totalTokens st + estimateTokens (fileBlock f),
                 includedFiles := includedFiles st @ [(path f, False)]\<rparr>))"

definition buildContextWithLimit :: "file_record list \<Rightarrow> int \<Rightarrow> context_assembly" where
  "buildContextWithLimit fs maxTokens =
     buildContext_loop maxTokens fs
       \<lparr>context_text = [], totalTokens = 0, includedFiles = [], skippedFiles = []\<rparr>"

text \<open>
  The chat route's \<open>buildContext\<close>: the budget is counted in characters
  (\<open>MAX_CHARS = 80000 * 4\<close>), the buffer is 100 characters, the threshold 500
  characters, and nothing but the text is returned.
\<close>

definition MAX_CHARS :: int where "MAX_CHARS = 80000 * 4"

fun route_buildContext_loop :: "file_record list \<Rightarrow> jsstring \<times> int \<Rightarrow> jsstring" where
  "route_buildContext_loop [] (ctx, totalChars) = ctx"
| "route_buildContext_loop (f # fs) (ctx, totalChars) =
     (if no_content f then route_buildContext_loop fs (ctx, totalChars)
      else if totalChars + int (length (fileBlock f)) > MAX_CHARS
      then (if MAX_CHARS - totalChars - 100 > 500
            then ctx @ fileHeader f @ slice0 (content_of f) (MAX_CHARS - totalChars - 100)
                 @ [NL] @ of_ascii ''[truncated]'' @ [NL]
            else ctx)
      else route_buildContext_loop fs (ctx @ fileBlock f, totalChars + int (length (fileBlock f))))"

definition buildContext :: "file_record list \<Rightarrow> jsstring" where
  "buildContext fs = route_buildContext_loop fs ([], 0)"

text \<open>
  What the assembly is compared with: the files that have content, the token cost of
  their blocks and the blocks themselves.
\<close>

definition with_content :: "file_record list \<Rightarrow> file_record list" where
  "with_content fs = filter (\<lambda>f. \<not> no_content f) fs"

definition blocks_tokens :: "file_record list \<Rightarrow> int" where
  "blocks_tokens fs = sum_list (map (\<lambda>f. estimateTokens (fileBlock f)) (with_content fs))"

definition blocks_text :: "file_record list \<Rightarrow> jsstring" where
  "blocks_text fs = concat (map fileBlock (with_content fs))"

definition included_whole :: "file_record list \<Rightarrow> (jsstring \<times> bool) list" where
  "included_whole fs = map (\<lambda>f. (path f, False)) (with_content fs)"

text \<open>The assembly's variables after the files \<open>pre\<close> were appended whole, and their initial values.\<close>

definition after :: "file_record list \<Rightarrow> context_assembly \<Rightarrow> context_assembly" where
  "after pre st = st\<lparr>context_text := context_text st @ blocks_text pre,
                     totalTokens := totalTokens st + blocks_tokens pre,
                     includedFiles := includedFiles st @ included_whole pre\<rparr>"

definition st0 :: context_assembly where
  "st0 = \<lparr>context_text = [], totalTokens = 0, includedFiles = [], skippedFiles = []\<rparr>"

text \<open>A name the line pattern can capture whole: non-empty and free of line terminators.\<close>

definition good_name :: "jsstring \<Rightarrow> bool" where
  "good_name nm = (nm \<noteq> [] \<and> \<not> list_ex is_line_terminator nm)"

section \<open>Pattern scanner\<close>

subsection \<open>Regular expressions\<close>

text \<open>
  The patterns of the rule table use character classes, sequence, alternation, greedy
  repetition and the word boundary \<open>\b\<close>. A cursor is the code unit before the
  position (none at the start of the input) and the rest of the input.
\<close>

datatype regex =
  Cls "code_unit \<Rightarrow> bool"
| Eps
| Seq regex regex
| Alt regex regex
| Star regex
| WordBoundary

type_synonym cursor = "code_unit option \<times> jsstring"

text \<open>\<open>\w\<close> is \<open>[A-Za-z0-9_]\<close>; \<open>\s\<close> is the white space and line terminators of the language.\<close>

definition is_word_unit :: "code_unit \<Rightarrow> bool" where
  "is_word_unit c =
     ((0x61 \<le> c \<and> c \<le> 0x7A) \<or> (0x41 \<le> c \<and> c \<le> 0x5A) \<or> (0x30 \<le> c \<and> c \<le> 0x39) \<or> c = 0x5F)"

definition is_space_unit :: "code_unit \<Rightarrow> bool" where
  "is_space_unit c =
     (c = 0x09 \<or> c = 0x0A \<or> c = 0x0B \<or> c = 0x0C \<or> c = 0x0D \<or> c = 0x20 \<or> c = 0xA0
      \<or> c = 0x1680 \<or> (0x2000 \<le> c \<and> c \<le> 0x200A) \<or> c = 0x2028 \<or> c = 0x2029
      \<or> c = 0x202F \<or> c = 0x205F \<or> c = 0x3000 \<or> c = 0xFEFF)"

definition word_before :: "code_unit option \<Rightarrow> bool" where
  "word_before pv = (case pv of None \<Rightarrow> False | Some c \<Rightarrow> is_word_unit c)"

definition word_after :: "jsstring \<Rightarrow> bool" where
  "word_after xs = (case xs of [] \<Rightarrow> False | c # cs \<Rightarrow> is_word_unit c)"

text \<open>
  The backtracking matcher as a list of successes: \<open>ends r cur\<close> lists the cursors at
  which a match of \<open>r\<close> begun at \<open>cur\<close> can end, in the order the engine tries them
  (first alternative first, longest repetition first). An iteration of a repetition
  that consumes nothing is rejected, as in the language's semantics.
\<close>

function ends :: "regex \<Rightarrow> cursor \<Rightarrow> cursor list" where
  "ends (Cls P) (pv, xs) = (case xs of [] \<Rightarrow> [] | c # cs \<Rightarrow> if P c then [(Some c, cs)] else [])"
| "ends Eps cur = [cur]"
| "ends (Seq a b) cur = concat (map (ends b) (ends a cur))"
| "ends (Alt a b) cur = ends a cur @ ends b cur"
| "ends (Star r) cur =
     concat (map (ends (Star r))
               (filter (\<lambda>e. length (snd e) < length (snd cur)) (ends r cur))) @ [cur]"
| "ends WordBoundary (pv, xs) = (if word_before pv \<noteq> word_after xs then [(pv, xs)] else [])"
  by pat_completeness auto
termination
  by (relation "measures [\<lambda>(r, cur). size r, \<lambda>(r, cur). length (snd cur)]") auto

declare ends.simps(5) [simp del]

text \<open>
  One \<open>exec\<close> from a position: the leftmost position at or after the cursor where the
  pattern matches, as the number of code units passed over, with the cursor at the end
  of the match the engine finds there.
\<close>

fun find_match :: "regex \<Rightarrow> code_unit option \<Rightarrow> jsstring \<Rightarrow> (nat \<times> cursor) option" where
  "find_match r pv [] = (case ends r (pv, []) of [] \<Rightarrow> None | e # es \<Rightarrow> Some (0, e))"
| "find_match r pv (c # cs) =
     (case ends r (pv, c # cs) of
        [] \<Rightarrow> map_option (\<lambda>(k, e). (Suc k, e)) (find_match r (Some c) cs)
      | e # es \<Rightarrow> Some (0, e))"

text \<open>
  The loop \<open>while ((match = pattern.exec(content)) !== null)\<close> of a global pattern,
  from \<open>lastIndex = i\<close>: the list of \<open>(match.index, match[0])\<close>. After an empty
  match \<open>lastIndex\<close> does not move and the loop of the source never ends: \<open>None\<close>.
\<close>

function exec_all ::
  "regex \<Rightarrow> code_unit option \<Rightarrow> jsstring \<Rightarrow> nat \<Rightarrow> (nat \<times> jsstring) list option" where
  "exec_all r pv xs i =
     (case find_match r pv xs of
        None \<Rightarrow> Some []
      | Some (k, (pv', rest)) \<Rightarrow>
          if length rest < length (drop k xs)
          then map_option
                 ((#) (i + k, take (length (drop k xs) - length rest) (drop k xs)))
                 (exec_all r pv' rest (i + k + (length (drop k xs) - length rest)))
          else None)"
  by pat_completeness auto
termination
  by (relation "measure (\<lambda>(r, pv, xs, i). length xs)") auto

declare exec_all.simps [simp del]

subsection \<open>Pattern notation\<close>

definition chr :: "code_unit \<Rightarrow> regex" where
  "chr c = Cls (\<lambda>x. x = c)"

text \<open>Under the \<open>i\<close> flag an ASCII letter matches its two cases and nothing else.\<close>

definition chr_ci :: "code_unit \<Rightarrow> regex" where
  "chr_ci c = Cls (\<lambda>x. ascii_lower_unit x = ascii_lower_unit c)"

definition seqs :: "regex list \<Rightarrow> regex" where
  "seqs rs = foldr Seq rs Eps"

fun alts :: "regex list \<Rightarrow> regex" where
  "alts [] = Cls (\<lambda>x. False)"
| "alts [r] = r"
| "alts (r # rs) = Alt r (alts rs)"

definition lit :: "string \<Rightarrow> regex" where
  "lit s = seqs (map chr (of_ascii s))"

definition lit_ci :: "string \<Rightarrow> regex" where
  "lit_ci s = seqs (map chr_ci (of_ascii s))"

definition one_of :: "jsstring \<Rightarrow> regex" where
  "one_of s = Cls (\<lambda>x. x \<in> set s)"

definition none_of :: "jsstring \<Rightarrow> regex" where
  "none_of s = Cls (\<lambda>x. x \<notin> set s)"

definition optional :: "regex \<Rightarrow> regex" where
  "optional r = Alt r Eps"

definition one_or_more :: "regex \<Rightarrow> regex" where
  "one_or_more r = Seq r (Star r)"

primrec rep :: "nat \<Rightarrow> regex \<Rightarrow> regex" where
  "rep 0 r = Eps"
| "rep (Suc n) r = Seq r (rep n r)"

definition at_least :: "nat \<Rightarrow> regex \<Rightarrow> regex" where
  "at_least n r = Seq (rep n r) (Star r)"

definition spaces :: regex where
  "spaces = Star (Cls is_space_unit)"

text \<open>\<open>['"]\<close>, \<open>[^'"]\<close>, \<open>[:=]\<close>, \<open>[_-]\<close> and the call-argument openers.\<close>

definition quote :: regex where "quote = one_of [0x27, 0x22]"
definition not_quote :: regex where "not_quote = none_of [0x27, 0x22]"
definition colon_or_eq :: regex where "colon_or_eq = one_of [0x3A, 0x3D]"
definition sep :: regex where "sep = one_of [0x5F, 0x2D]"

text \<open>\<open>[a-zA-Z0-9_\-]\<close> and \<open>[0-9A-Z]\<close>.\<close>

definition is_key_unit :: "code_unit \<Rightarrow> bool" where
  "is_key_unit c = (is_word_unit c \<or> c = 0x2D)"

definition is_upper_or_digit :: "code_unit \<Rightarrow> bool" where
  "is_upper_or_digit c = ((0x30 \<le> c \<and> c \<le> 0x39) \<or> (0x41 \<le> c \<and> c \<le> 0x5A))"

subsection \<open>The patterns of the rule tables\<close>

definition re_hardcoded_api_key :: regex where
  "re_hardcoded_api_key =
     seqs [alts [seqs [lit_ci ''api'', optional sep, lit_ci ''key''], lit_ci ''apikey''],
           spaces, colon_or_eq, spaces, quote, at_least 20 (Cls is_key_unit), quote]"

definition re_hardcoded_secret :: regex where
  "re_hardcoded_secret =
     seqs [alts [lit_ci ''secret'', lit_ci ''password'', lit_ci ''passwd'', lit_ci ''pwd''],
           spaces, colon_or_eq, spaces, quote, at_least 8 not_quote, quote]"

definition re_aws_key :: regex where
  "re_aws_key = seqs [lit ''AKIA'', rep 16 (Cls is_upper_or_digit)]"

definition re_private_key :: regex where
  "re_private_key =
     seqs [lit ''-----BEGIN '',
           optional (alts [lit ''RSA '', lit ''EC '', lit ''DSA '', lit ''OPENSSH '']),
           lit ''PRIVATE KEY-----'']"

definition re_jwt_secret :: regex where
  "re_jwt_secret =
     seqs [alts [seqs [lit_ci ''jwt'', optional sep, lit_ci ''secret''],
                 seqs [lit_ci ''token'', optional sep, lit_ci ''secret'']],
           spaces, colon_or_eq, spaces, quote, one_or_more not_quote, quote]"

definition user_input :: regex where
  "user_input = alts [lit ''req.'', lit ''request.'', lit ''params.'', lit ''query.'', lit ''body.'']"

definition re_sql_injection :: regex where
  "re_sql_injection =
     seqs [alts [lit ''${'', seqs [chr 0x2B, spaces]], spaces, user_input,
           one_or_more (none_of [0x7D]), optional (chr 0x7D), spaces, alts [chr 0x2B, chr 0x60]]"

definition re_raw_query :: regex where
  "re_raw_query = seqs [lit ''.raw'', spaces, chr 0x28, spaces, one_of [0x27, 0x22, 0x60]]"

definition re_innerhtml :: regex where
  "re_innerhtml = seqs [lit ''.innerHTML'', spaces, chr 0x3D, spaces, one_or_more (none_of [0x3B])]"

definition re_dangerously_set_html :: regex where
  "re_dangerously_set_html = lit ''dangerouslySetInnerHTML''"

definition re_document_write :: regex where
  "re_document_write = seqs [lit ''document.write'', spaces, chr 0x28]"

definition re_exec_injection :: regex where
  "re_exec_injection =
     seqs [alts [lit ''exec'', lit ''execSync'', lit ''spawn'', lit ''spawnSync''],
           spaces, chr 0x28, Star (none_of [0x29]),
           alts [lit ''${'', lit ''req.'', lit ''request.'', lit ''params.'']]"

definition re_eval_usage :: regex where
  "re_eval_usage =
     seqs [WordBoundary, lit ''eval'', spaces, chr 0x28, one_or_more (none_of [0x29]), chr 0x29]"

definition re_path_traversal :: regex where
  "re_path_traversal =
     seqs [alts [lit ''readFile'', lit ''readFileSync'', lit ''writeFile'', lit ''writeFileSync''],
           spaces, chr 0x28, Star (none_of [0x29]),
           alts [lit ''${'', lit ''req.'', lit ''request.'', lit ''params.'']]"

definition re_cors_wildcard :: regex where
  "re_cors_wildcard =
     seqs [lit_ci ''cors'', spaces, chr 0x28, spaces, chr 0x7B, spaces, lit_ci ''origin'', spaces, chr 0x3A, spaces,
           optional quote, chr 0x2A, optional quote]"

definition re_https_disabled :: regex where
  "re_https_disabled =
     Alt (seqs [lit_ci ''http'', optional (chr_ci 0x73), spaces, chr 0x3A, spaces, lit_ci ''false''])
         (seqs [lit_ci ''secure'', spaces, chr 0x3A, spaces, lit_ci ''false''])"

definition re_debug_enabled :: regex where
  "re_debug_enabled =
     Alt (seqs [lit_ci ''debug'', spaces, colon_or_eq, spaces, lit_ci ''true''])
         (seqs [lit_ci ''DEBUG'', spaces, chr 0x3D, spaces, optional quote, lit_ci ''true''])"

definition re_md5_usage :: regex where
  "re_md5_usage =
     seqs [lit_ci ''createHash'', spaces, chr 0x28, spaces, quote, lit_ci ''md5'', quote, chr 0x29]"

definition re_sha1_usage :: regex where
  "re_sha1_usage =
     seqs [lit_ci ''createHash'', spaces, chr 0x28, spaces, quote, lit_ci ''sha1'', quote, chr 0x29]"

definition re_no_auth_check :: regex where
  "re_no_auth_check =
     seqs [lit ''//'', spaces, lit_ci ''TODO'', optional (chr 0x3A), spaces,
           optional (alts [lit_ci ''add'', lit_ci ''implement'']), spaces, lit_ci ''auth'']"

text \<open>The two patterns of the scan route that differ from the library's.\<close>

definition re_route_sql_injection :: regex where
  "re_route_sql_injection = seqs [alts [lit ''${'', seqs [chr 0x2B, spaces]], user_input]"

definition re_route_exec_injection :: regex where
  "re_route_exec_injection =
     seqs [alts [lit ''exec'', lit ''execSync'', lit ''spawn''],
           spaces, chr 0x28, Star (none_of [0x29]),
           alts [lit ''${'', lit ''req.'', lit ''params.'']]"

subsection \<open>Rule tables\<close>

record rule =
  rule_id :: jsstring
  rule_type :: jsstring
  rule_severity :: jsstring
  pattern :: regex
  rule_title :: jsstring
  rule_description :: jsstring
  rule_fix :: jsstring

definition mk_rule ::
  "string \<Rightarrow> string \<Rightarrow> jsstring \<Rightarrow> regex \<Rightarrow> string \<Rightarrow> string \<Rightarrow> string \<Rightarrow> rule" where
  "mk_rule i t s p ti d f =
     \<lparr>rule_id = of_ascii i, rule_type = of_ascii t, rule_severity = s, pattern = p,
      rule_title = of_ascii ti, rule_description = of_ascii d, rule_fix = of_ascii f\<rparr>"

text \<open>The library's table, in its order.\<close>

definition SECURITY_PATTERNS :: "rule list" where
  "SECURITY_PATTERNS =
    [mk_rule ''hardcoded-api-key'' ''Hardcoded Secret'' CRITICAL re_hardcoded_api_key
       ''Hardcoded API Key'' ''API key appears to be hardcoded in source code''
       ''Move API keys to environment variables'',
     mk_rule ''hardcoded-secret'' ''Hardcoded Secret'' CRITICAL re_hardcoded_secret
       ''Hardcoded Secret/Password'' ''Secret or password appears to be hardcoded''
       ''Use environment variables or a secrets manager'',
     mk_rule ''aws-key'' ''Hardcoded Secret'' CRITICAL re_aws_key
       ''AWS Access Key'' ''AWS access key ID found in source code''
       ''Remove and rotate the AWS key immediately'',
     mk_rule ''private-key'' ''Hardcoded Secret'' CRITICAL re_private_key
       ''Private Key Exposed'' ''Private key found in source code''
       ''Remove private key and store securely outside repo'',
     mk_rule ''jwt-secret'' ''Hardcoded Secret'' HIGH re_jwt_secret
       ''Hardcoded JWT Secret'' ''JWT signing secret is hardcoded''
       ''Move to environment variables'',
     mk_rule ''sql-injection'' ''SQL Injection'' HIGH re_sql_injection
       ''Potential SQL Injection'' ''User input may be directly concatenated into SQL query''
       ''Use parameterized queries or prepared statements'',
     mk_rule ''raw-query'' ''SQL Injection'' MEDIUM re_raw_query
       ''Raw SQL Query'' ''Raw SQL queries may be vulnerable to injection''
       ''Prefer ORM methods or use parameterized queries'',
     mk_rule ''innerhtml'' ''XSS'' HIGH re_innerhtml
       ''innerHTML Assignment'' ''Direct innerHTML assignment may enable XSS''
       ''Use textContent or sanitize HTML before insertion'',
     mk_rule ''dangerously-set-html'' ''XSS'' HIGH re_dangerously_set_html
       ''dangerouslySetInnerHTML Usage''
       ''React's dangerouslySetInnerHTML bypasses XSS protection''
       ''Sanitize content with DOMPurify before rendering'',
     mk_rule ''document-write'' ''XSS'' HIGH re_document_write
       ''document.write Usage'' ''document.write can introduce XSS vulnerabilities''
       ''Use DOM manipulation methods instead'',
     mk_rule ''exec-injection'' ''Command Injection'' CRITICAL re_exec_injection
       ''Command Injection Risk'' ''User input may be passed to shell command''
       ''Sanitize input and avoid shell execution with user data'',
     mk_rule ''eval-usage'' ''Code Injection'' CRITICAL re_eval_usage
       ''eval() Usage'' ''eval() can execute arbitrary code''
       ''Avoid eval(); use safer alternatives like JSON.parse()'',
     mk_rule ''path-traversal'' ''Path Traversal'' HIGH re_path_traversal
       ''Path Traversal Risk'' ''User input in file path may allow directory traversal''
       ''Validate and sanitize file paths; use path.resolve()'',
     mk_rule ''cors-wildcard'' ''Misconfiguration'' MEDIUM re_cors_wildcard
       ''CORS Wildcard Origin'' ''CORS allows requests from any origin''
       ''Restrict to specific trusted origins'',
     mk_rule ''https-disabled'' ''Misconfiguration'' MEDIUM re_https_disabled
       ''HTTPS/Secure Disabled'' ''Security feature appears to be disabled''
       ''Enable HTTPS and secure flags in production'',
     mk_rule ''debug-enabled'' ''Misconfiguration'' LOW re_debug_enabled
       ''Debug Mode Enabled'' ''Debug mode should be disabled in production''
       ''Use environment-based configuration'',
     mk_rule ''md5-usage'' ''Weak Cryptography'' MEDIUM re_md5_usage
       ''MD5 Hash Usage'' ''MD5 is cryptographically broken''
       ''Use SHA-256 or stronger hashing algorithms'',
     mk_rule ''sha1-usage'' ''Weak Cryptography'' LOW re_sha1_usage
       ''SHA1 Hash Usage'' ''SHA1 is considered weak for security purposes''
       ''Use SHA-256 or stronger algorithms'',
     mk_rule ''no-auth-check'' ''Authentication'' MEDIUM re_no_auth_check
       ''Missing Authentication'' ''TODO comment suggests authentication not implemented''
       ''Implement proper authentication before deployment'']"

text \<open>The scan route's table.\<close>

definition ROUTE_SECURITY_PATTERNS :: "rule list" where
  "ROUTE_SECURITY_PATTERNS =
    [mk_rule ''hardcoded-api-key'' ''Hardcoded Secret'' CRITICAL re_hardcoded_api_key
       ''Hardcoded API Key'' ''API key appears to be hardcoded in source code''
       ''Move API keys to environment variables'',
     mk_rule ''hardcoded-secret'' ''Hardcoded Secret'' CRITICAL re_hardcoded_secret
       ''Hardcoded Secret/Password'' ''Secret or password appears to be hardcoded''
       ''Use environment variables or a secrets manager'',
     mk_rule ''aws-key'' ''Hardcoded Secret'' CRITICAL re_aws_key
       ''AWS Access Key'' ''AWS access key ID found in source code''
       ''Remove and rotate the AWS key immediately'',
     mk_rule ''eval-usage'' ''Code Injection'' CRITICAL re_eval_usage
       ''eval() Usage'' ''eval() can execute arbitrary code''
       ''Avoid eval(); use safer alternatives'',
     mk_rule ''innerhtml'' ''XSS'' HIGH re_innerhtml
       ''innerHTML Assignment'' ''Direct innerHTML assignment may enable XSS''
       ''Use textContent or sanitize HTML'',
     mk_rule ''dangerously-set-html'' ''XSS'' HIGH re_dangerously_set_html
       ''dangerouslySetInnerHTML Usage'' ''Bypasses React's XSS protection''
       ''Sanitize content with DOMPurify'',
     mk_rule ''sql-injection'' ''SQL Injection'' HIGH re_route_sql_injection
       ''Potential SQL Injection'' ''User input may be concatenated into SQL''
       ''Use parameterized queries'',
     mk_rule ''exec-injection'' ''Command Injection'' CRITICAL re_route_exec_injection
       ''Command Injection Risk'' ''User input may be passed to shell''
       ''Sanitize input; avoid shell execution'',
     mk_rule ''cors-wildcard'' ''Misconfiguration'' MEDIUM re_cors_wildcard
       ''CORS Wildcard Origin'' ''CORS allows any origin''
       ''Restrict to trusted origins'',
     mk_rule ''md5-usage'' ''Weak Cryptography'' MEDIUM re_md5_usage
       ''MD5 Hash Usage'' ''MD5 is cryptographically broken''
       ''Use SHA-256 or stronger'']"

definition CODE_EXTENSIONS :: "jsstring list" where
  "CODE_EXTENSIONS = map of_ascii
     [''.js'', ''.jsx'', ''.ts'', ''.tsx'', ''.mjs'', ''.cjs'',
      ''.py'', ''.rb'', ''.php'', ''.java'', ''.go'', ''.rs'',
      ''.vue'', ''.svelte'']"

definition ROUTE_CODE_EXTENSIONS :: "jsstring list" where
  "ROUTE_CODE_EXTENSIONS = map of_ascii
     [''.js'', ''.jsx'', ''.ts'', ''.tsx'', ''.py'', ''.rb'', ''.php'', ''.go'']"

subsection \<open>Scanning a file\<close>

text \<open>
  The line-number loop: \<open>lineNumber\<close> starts at 1 and is set to \<open>i + 1\<close> at the first
  line where the running count of characters (each line plus one) exceeds the position.
\<close>

fun line_loop :: "jsstring list \<Rightarrow> nat \<Rightarrow> nat \<Rightarrow> nat \<Rightarrow> nat" where
  "line_loop [] i charCount position = 1"
| "line_loop (l # ls) i charCount position =
     (if charCount + (length l + 1) > position then i + 1
      else line_loop ls (i + 1) (charCount + (length l + 1)) position)"

definition lineNumber :: "jsstring list \<Rightarrow> nat \<Rightarrow> nat" where
  "lineNumber lines position = line_loop lines 0 0 position"

text \<open>The finding the library scanner pushes for a match.\<close>

definition finding_of :: "jsstring \<Rightarrow> jsstring list \<Rightarrow> rule \<Rightarrow> nat \<times> jsstring \<Rightarrow> finding" where
  "finding_of filePath lines r m =
     \<lparr>fid = rule_id r @ of_ascii ''-'' @ filePath @ of_ascii ''-''
             @ show_nat (lineNumber lines (fst m)),
      ffile = filePath,
      line = Number (int (lineNumber lines (fst m))),
      ftype = rule_type r,
      severity = rule_severity r,
      title = rule_title r,
      description = rule_description r,
      fix_text = rule_fix r,
      matched = Some (take 100 (snd m)),
      snippet = Some (join [NL]
                  (drop (lineNumber lines (fst m) - 2)
                     (take (min (length lines) (lineNumber lines (fst m) + 1)) lines))),
      confidence = HIGH,
      source = None\<rparr>"

text \<open>
  The loop over the rules: each rule's pattern is reset (\<open>lastIndex = 0\<close>) and run to
  exhaustion over the content. \<open>None\<close> when a pattern's loop never ends.
\<close>

fun scan_rules ::
  "rule list \<Rightarrow> (rule \<Rightarrow> nat \<times> jsstring \<Rightarrow> finding) \<Rightarrow> jsstring \<Rightarrow> finding list option" where
  "scan_rules [] mk src = Some []"
| "scan_rules (r # rs) mk src =
     (case exec_all (pattern r) None src 0 of
        None \<Rightarrow> None
      | Some ms \<Rightarrow> map_option ((@) (map (mk r) ms)) (scan_rules rs mk src))"

definition scanFile ::
  "(jsstring \<Rightarrow> jsstring) \<Rightarrow> jsstring \<Rightarrow> jsstring \<Rightarrow> finding list option" where
  "scanFile lower filePath src =
     (if src = [] then Some []
      else if lower (file_ext filePath) \<notin> set CODE_EXTENSIONS then Some []
      else scan_rules SECURITY_PATTERNS (finding_of filePath (split_nl src)) src)"

text \<open>\<open>scanFiles\<close>: scan each file that has content, deduplicate, sort by severity.\<close>

fun scan_each :: "(jsstring \<Rightarrow> jsstring) \<Rightarrow> file_record list \<Rightarrow> finding list option" where
  "scan_each lower [] = Some []"
| "scan_each lower (f # fs) =
     (if no_content f then scan_each lower fs
      else (case scanFile lower (path f) (content_of f) of
              None \<Rightarrow> None
            | Some found \<Rightarrow> map_option ((@) found) (scan_each lower fs)))"

definition severityOrder :: "jsstring \<Rightarrow> int" where
  "severityOrder s = (if s = CRITICAL then 0 else if s = HIGH then 1 else if s = MEDIUM then 2 else 3)"

definition scanFiles :: "(jsstring \<Rightarrow> jsstring) \<Rightarrow> file_record list \<Rightarrow> finding list option" where
  "scanFiles lower fs =
     map_option
       (\<lambda>allFindings.
          sort_by (\<lambda>a b. severityOrder (severity a) - severityOrder (severity b))
            (deduplicateFindings allFindings))
       (scan_each lower fs)"

definition filterCodeFiles ::
  "(jsstring \<Rightarrow> jsstring) \<Rightarrow> file_record list \<Rightarrow> int \<Rightarrow> file_record list" where
  "filterCodeFiles lower fs maxFiles =
     slice0 (filter (\<lambda>f. lower (file_ext (path f)) \<in> set CODE_EXTENSIONS) fs) maxFiles"

subsection \<open>Grouping and summary\<close>

record grouped =
  g_critical :: "finding list"
  g_high :: "finding list"
  g_medium :: "finding list"
  g_low :: "finding list"

definition groupBySeverity :: "finding list \<Rightarrow> grouped" where
  "groupBySeverity findings =
     \<lparr>g_critical = filter (\<lambda>f. severity f = CRITICAL) findings,
      g_high = filter (\<lambda>f. severity f = HIGH) findings,
      g_medium = filter (\<lambda>f. severity f = MEDIUM) findings,
      g_low = filter (\<lambda>f. severity f = LOW) findings\<rparr>"

text \<open>The scan route's summary line.\<close>

definition generateSummary :: "finding list \<Rightarrow> jsstring" where
  "generateSummary findings =
     (if length findings = 0 then of_ascii ''No security vulnerabilities detected.''
      else
        of_ascii ''Found '' @ show_nat (length findings) @ of_ascii '' potential issue''
        @ (if length findings \<noteq> 1 then of_ascii ''s'' else []) @ of_ascii '': ''
        @ join (of_ascii '', '')
            ((if g_critical (groupBySeverity findings) \<noteq> []
              then [show_nat (length (g_critical (groupBySeverity findings))) @ of_ascii '' critical'']
              else [])
             @ (if g_high (groupBySeverity findings) \<noteq> []
                then [show_nat (length (g_high (groupBySeverity findings))) @ of_ascii '' high'']
                else [])
             @ (if g_medium (groupBySeverity findings) \<noteq> []
                then [show_nat (length (g_medium (groupBySeverity findings))) @ of_ascii '' medium'']
                else [])
             @ (if g_low (groupBySeverity findings) \<noteq> []
                then [show_nat (length (g_low (groupBySeverity findings))) @ of_ascii '' low'']
                else [])))"

section \<open>Streaming delivery\<close>

text \<open>
  What a handler does to its response: \<open>sendEvent(type, data)\<close> writes one event,
  \<open>res.end()\<close> closes the channel.
\<close>

datatype payload =
  StatusData jsstring nat
| FilesData "jsstring list" "jsstring option" nat
| ChunkData jsstring
| CompleteData "finding list" grouped jsstring nat nat
| DoneData
| ErrorData jsstring

datatype action = Write jsstring payload | End

definition STATUS :: jsstring where "STATUS = of_ascii ''status''"
definition FILES :: jsstring where "FILES = of_ascii ''files''"
definition CHUNK :: jsstring where "CHUNK = of_ascii ''chunk''"
definition COMPLETE :: jsstring where "COMPLETE = of_ascii ''complete''"
definition DONE :: jsstring where "DONE = of_ascii ''done''"
definition ERROR :: jsstring where "ERROR = of_ascii ''error''"

definition status :: "string \<Rightarrow> nat \<Rightarrow> action" where
  "status msg progress = Write STATUS (StatusData (of_ascii msg) progress)"

definition is_terminal :: "action \<Rightarrow> bool" where
  "is_terminal a = (case a of Write t d \<Rightarrow> t = COMPLETE \<or> t = DONE \<or> t = ERROR | End \<Rightarrow> False)"

text \<open>\<open>error.message || fallback\<close>.\<close>

definition message_or :: "js_error \<Rightarrow> string \<Rightarrow> jsstring" where
  "message_or e fallback = (if err_message e = [] then of_ascii fallback else err_message e)"

subsection \<open>The scan route\<close>

text \<open>One fetch of the scan route's \<open>fetchFiles\<close>: null content on any failure.\<close>

definition fetchFiles_one :: "remote \<Rightarrow> (jsstring \<Rightarrow> jsstring) \<Rightarrow> jsstring \<Rightarrow> file_record" where
  "fetchFiles_one getContent decode p =
     (case getContent p of
        Inl e \<Rightarrow> \<lparr>path = p, content = None, fsize = None, sha = None, error = None\<rparr>
      | Inr data \<Rightarrow>
          (case data of
             Single it \<Rightarrow>
               if item_type it \<noteq> FILE
               then \<lparr>path = p, content = None, fsize = None, sha = None, error = None\<rparr>
               else \<lparr>path = p, content = Some (decode (item_content it)), fsize = None,
                     sha = None, error = None\<rparr>
           | Listing xs \<Rightarrow> \<lparr>path = p, content = None, fsize = None, sha = None, error = None\<rparr>))"

text \<open>
  \<open>fetchFiles\<close>: the status events of the batches, the paths asked of the remote, in
  order, and the records that have content. The progress of a batch is
  \<open>Math.round(10 + (i / paths.length) * 30)\<close> in floating point, taken as the
  parameter \<open>batchProgress i paths.length\<close>.
\<close>

record fetch_run =
  fetch_events :: "action list"
  fetch_requested :: "jsstring list"
  fetch_results :: "file_record list"

definition fetchFiles ::
  "remote \<Rightarrow> (jsstring \<Rightarrow> jsstring) \<Rightarrow> (nat \<Rightarrow> nat \<Rightarrow> nat) \<Rightarrow> jsstring list \<Rightarrow> fetch_run" where
  "fetchFiles getContent decode batchProgress paths =
     \<lparr>fetch_events =
        map (\<lambda>(k, batch).
               Write STATUS
                 (StatusData
                    (of_ascii ''Fetching files ('' @ show_nat (5 * k + length batch)
                     @ of_ascii ''/'' @ show_nat (length paths) @ of_ascii '')...'')
                    (batchProgress (5 * k) (length paths))))
            (enumerate 0 (chunks 5 paths)),
      fetch_requested = concat (chunks 5 paths),
      fetch_results =
        filter (\<lambda>f. \<not> no_content f)
          (map (fetchFiles_one getContent decode) (concat (chunks 5 paths)))\<rparr>"

text \<open>The finding the route's pattern scan pushes for a match.\<close>

definition route_finding_of :: "jsstring \<Rightarrow> jsstring list \<Rightarrow> rule \<Rightarrow> nat \<times> jsstring \<Rightarrow> finding" where
  "route_finding_of filePath lines r m =
     \<lparr>fid = rule_id r @ of_ascii ''-'' @ filePath @ of_ascii ''-''
             @ show_nat (lineNumber lines (fst m)),
      ffile = filePath,
      line = Number (int (lineNumber lines (fst m))),
      ftype = rule_type r,
      severity = rule_severity r,
      title = rule_title r,
      description = rule_description r,
      fix_text = rule_fix r,
      matched = None,
      snippet = None,
      confidence = HIGH,
      source = Some (of_ascii ''pattern'')\<rparr>"

fun runPatternScan :: "file_record list \<Rightarrow> finding list option" where
  "runPatternScan [] = Some []"
| "runPatternScan (f # fs) =
     (if no_content f then runPatternScan fs
      else (case scan_rules ROUTE_SECURITY_PATTERNS
                   (route_finding_of (path f) (split_nl (content_of f))) (content_of f) of
              None \<Rightarrow> None
            | Some found \<Rightarrow> map_option ((@) found) (runPatternScan fs)))"

text \<open>
  \<open>runAIScan\<close>: the model call and \<open>JSON.parse\<close> either throw (an empty list is
  returned) or give the list \<open>parsed.findings || []\<close> of objects with the seven
  fields asked for, the six textual ones taken as strings and \<open>line\<close> as any value;
  \<open>now k\<close> is \<open>Date.now()\<close> at the \<open>k\<close>-th object.
\<close>

record ai_item =
  ai_file :: jsstring
  ai_line :: line_value
  ai_type :: jsstring
  ai_severity :: jsstring
  ai_title :: jsstring
  ai_description :: jsstring
  ai_fix :: jsstring

datatype ai_reply = AiFailed | AiFindings "ai_item list"

definition runAIScan :: "(nat \<Rightarrow> nat) \<Rightarrow> ai_reply \<Rightarrow> file_record list \<Rightarrow> finding list" where
  "runAIScan now reply fs =
     (case reply of
        AiFailed \<Rightarrow> []
      | AiFindings items \<Rightarrow>
          map (\<lambda>(k, f).
                 \<lparr>fid = of_ascii ''ai-'' @ ai_file f @ of_ascii ''-'' @ template (ai_line f)
                         @ of_ascii ''-'' @ show_nat (now k),
                  ffile = ai_file f, line = ai_line f, ftype = ai_type f,
                  severity = ai_severity f, title = ai_title f,
                  description = ai_description f, fix_text = ai_fix f,
                  matched = None, snippet = None,
                  confidence = MEDIUM, source = Some (of_ascii ''ai'')\<rparr>)
              (enumerate 0 items))"

text \<open>
  \<open>req.body.filePaths\<close>: absent, an array of strings, or anything else (on which
  \<open>.filter\<close> or \<open>path.substring\<close> throws a TypeError inside the \<open>try\<close>).
\<close>

datatype body_paths = Missing | Malformed | Paths "jsstring list"

definition codeFiles :: "(jsstring \<Rightarrow> jsstring) \<Rightarrow> jsstring list \<Rightarrow> jsstring list" where
  "codeFiles lower filePaths =
     take 20 (filter (\<lambda>p. lower (file_ext p) \<in> set ROUTE_CODE_EXTENSIONS) filePaths)"

record scan_run =
  actions :: "action list"
  requested :: "jsstring list"
  scanned :: "file_record list"

text \<open>
  The scan handler from the point where the event stream is set up (a request that
  is not a POST or lacks owner or repo is answered before, without events). The
  early \<open>return res.end()\<close> is followed by the \<open>res.end()\<close> of \<open>finally\<close>.
\<close>

definition scan_handler ::
  "(jsstring \<Rightarrow> jsstring) \<Rightarrow> remote \<Rightarrow> (jsstring \<Rightarrow> jsstring) \<Rightarrow> (nat \<Rightarrow> nat \<Rightarrow> nat) \<Rightarrow> (nat \<Rightarrow> nat)
     \<Rightarrow> ai_reply \<Rightarrow> body_paths \<Rightarrow> scan_run option" where
  "scan_handler lower getContent decode batchProgress now reply filePaths =
     (case filePaths of
        Malformed \<Rightarrow>
          Some \<lparr>actions = [Write ERROR (ErrorData (message_or TypeError ''Scan failed'')), End],
                requested = [], scanned = []\<rparr>
      | Missing \<Rightarrow>
          Some \<lparr>actions = [Write ERROR (ErrorData (of_ascii ''No code files found to scan'')),
                           End, End],
                requested = [], scanned = []\<rparr>
      | Paths ps \<Rightarrow>
          if length (codeFiles lower ps) = 0
          then Some \<lparr>actions = [Write ERROR (ErrorData (of_ascii ''No code files found to scan'')),
                                End, End],
                     requested = [], scanned = []\<rparr>
          else
            (let fetched = fetchFiles getContent decode batchProgress (codeFiles lower ps)
             in case runPatternScan (fetch_results fetched) of
                  None \<Rightarrow> None
                | Some patternFindings \<Rightarrow>
                    (let found = filteredFindings
                                   (deduplicateFindings
                                      (patternFindings
                                       @ runAIScan now reply (fetch_results fetched)))
                     in Some
                       \<lparr>actions =
                          [Write STATUS
                             (StatusData
                                (of_ascii ''Scanning '' @ show_nat (length (codeFiles lower ps))
                                 @ of_ascii '' files...'') 10)]
                          @ fetch_events fetched
                          @ [status ''Running pattern-based scan...'' 40,
                             status ''Running AI analysis...'' 60,
                             status ''Generating summary...'' 90,
                             Write COMPLETE
                               (CompleteData found (groupBySeverity found)
                                  (generateSummary found) (length (codeFiles lower ps))
                                  (length found)),
                             status ''Complete'' 100,
                             End],
                        requested = fetch_requested fetched,
                        scanned = fetch_results fetched\<rparr>)))"

subsection \<open>The chat route\<close>

text \<open>
  The streaming model call: it throws before any chunk, or yields chunks (each with
  or without text) and then ends or throws.
\<close>

datatype stream_outcome =
  CreateFailed js_error
| Streamed "jsstring option list" "js_error option"

definition chunk_events :: "jsstring option list \<Rightarrow> action list" where
  "chunk_events cs =
     map (\<lambda>c. Write CHUNK (ChunkData (case c of None \<Rightarrow> [] | Some t \<Rightarrow> t)))
       (filter (\<lambda>c. case c of None \<Rightarrow> False | Some t \<Rightarrow> t \<noteq> []) cs)"

text \<open>
  The chat handler from the point where the event stream is set up. \<open>tree\<close> is
  \<open>req.body.tree\<close>, on whose absence \<open>tree.split\<close> throws. The fetched contents and
  the context go into the model call, whose outcome is the parameter \<open>stream\<close>.
\<close>

definition chat_handler ::
  "(jsstring \<Rightarrow> jsstring) \<Rightarrow> model_reply \<Rightarrow> stream_outcome \<Rightarrow> jsstring \<Rightarrow> jsstring option
     \<Rightarrow> jsstring \<Rightarrow> jsstring \<Rightarrow> action list" where
  "chat_handler lower reply stream query tree owner repo =
     status ''Analyzing query...'' 10 #
     (case tree of
        None \<Rightarrow> [Write ERROR (ErrorData (message_or TypeError ''Failed to generate response'')), End]
      | Some t \<Rightarrow>
          [Write FILES
             (FilesData (files (selectRelevantFiles lower reply query t owner repo))
                (reason (selectRelevantFiles lower reply query t owner repo))
                (length (files (selectRelevantFiles lower reply query t owner repo)))),
           Write STATUS
             (StatusData
                (of_ascii ''Fetching ''
                 @ show_nat (length (files (selectRelevantFiles lower reply query t owner repo)))
                 @ of_ascii '' files...'') 30),
           status ''Generating response...'' 60]
          @ (case stream of
               CreateFailed e \<Rightarrow>
                 [Write ERROR (ErrorData (message_or e ''Failed to generate response'')), End]
             | Streamed cs failure \<Rightarrow>
                 status ''Streaming response...'' 80 # chunk_events cs
                 @ (case failure of
                      Some e \<Rightarrow>
                        [Write ERROR (ErrorData (message_or e ''Failed to generate response'')), End]
                    | None \<Rightarrow> [status ''Complete'' 100, Write DONE DoneData, End])))"

text \<open>
  The delivery contract: the writes end with a terminal event, no earlier write is
  terminal, and nothing but closing the channel follows.
\<close>

definition well_terminated :: "action list \<Rightarrow> bool" where
  "well_terminated acts =
     (takeWhile (\<lambda>a. a \<noteq> End) acts \<noteq> []
      \<and> is_terminal (last (takeWhile (\<lambda>a. a \<noteq> End) acts))
      \<and> list_all (\<lambda>a. \<not> is_terminal a) (butlast (takeWhile (\<lambda>a. a \<noteq> End) acts))
      \<and> dropWhile (\<lambda>a. a \<noteq> End) acts \<noteq> []
      \<and> list_all (\<lambda>a. a = End) (dropWhile (\<lambda>a. a \<noteq> End) acts))"

text \<open>A pattern that can match the empty string.\<close>

fun nullable :: "regex \<Rightarrow> bool" where
  "nullable (Cls P) = False"
| "nullable Eps = True"
| "nullable (Seq a b) = (nullable a \<and> nullable b)"
| "nullable (Alt a b) = (nullable a \<or> nullable b)"
| "nullable (Star r) = True"
| "nullable WordBoundary = True"

text \<open>The code units a pattern can consume.\<close>

fun alphabet :: "regex \<Rightarrow> code_unit \<Rightarrow> bool" where
  "alphabet (Cls P) c = P c"
| "alphabet Eps c = False"
| "alphabet (Seq a b) c = (alphabet a c \<or> alphabet b c)"
| "alphabet (Alt a b) c = (alphabet a c \<or> alphabet b c)"
| "alphabet (Star r) c = alphabet r c"
| "alphabet WordBoundary c = False"

text \<open>The line of Scenario B, and the part of it that the API-key pattern matches.\<close>

definition API_KEY_MATCH :: jsstring where
  "API_KEY_MATCH = of_ascii ''apiKey = \"sk-aaaaaaaaaaaaaaaaaaaaaaaa\"''"

definition API_KEY_LINE :: jsstring where
  "API_KEY_LINE = of_ascii ''const '' @ API_KEY_MATCH @ of_ascii '';''"

text \<open>The offset at which line \<open>k\<close> of a split text starts.\<close>

definition line_start :: "jsstring list \<Rightarrow> nat \<Rightarrow> nat" where
  "line_start lines k = sum_list (map (\<lambda>l. length l + 1) (take k lines))"

section \<open>Example inputs\<close>

text \<open>
  A repository with one file \<open>a.js\<close> whose content is \<open>x = 1\<close>, base64-encoded by the
  remote; a decoder that knows this one payload; and a source text whose second line
  is the line of Scenario B.
\<close>

definition example_remote :: remote where
  "example_remote =
     (\<lambda>p. if p = of_ascii ''a.js''
          then Inr (Single \<lparr>item_name = of_ascii ''a.js'', item_path = of_ascii ''a.js'',
                             item_type = FILE, item_size = 5,
                             item_content = of_ascii ''eCA9IDE='', item_sha = of_ascii ''0''\<rparr>)
          else Inl \<lparr>err_status = Some 404, err_message = of_ascii ''Not Found''\<rparr>)"

definition example_decode :: "jsstring \<Rightarrow> jsstring" where
  "example_decode = (\<lambda>s. if s = of_ascii ''eCA9IDE='' then of_ascii ''x = 1'' else [])"

definition example_source :: jsstring where
  "example_source = of_ascii ''// config'' @ [NL] @ API_KEY_LINE @ [NL]"

section \<open>Batched content fetcher: order and failure isolation\<close>

lemma chunks_concat: "0 < n \<Longrightarrow> concat (chunks n xs) = xs"
proof (induction n xs rule: chunks.induct)
  case (1 n xs)
  show ?case
  proof (cases "xs = []")
    case True
    then show ?thesis by (simp add: chunks.simps)
  next
    case False
    with 1 have "concat (chunks n (drop n xs)) = drop n xs" by simp
    with False 1(2) show ?thesis by (subst chunks.simps) simp
  qed
qed

lemma concat_map_map: "concat (map (map f) xss) = map f (concat xss)"
  by (induction xss) auto

lemma fetchFileContent_path: "path (fetchFileContent g d p) = p"
  by (auto simp: fetchFileContent_def fetchFileContent_try_def
      split: sum.splits remote_data.splits if_splits)

lemma fetchFileContent_fail:
  "\<not> resolves_to_file g p \<Longrightarrow>
     content (fetchFileContent g d p) = None \<and> error (fetchFileContent g d p) \<noteq> None"
  by (auto simp: fetchFileContent_def fetchFileContent_try_def resolves_to_file_def
      split: sum.splits remote_data.splits)

lemma fetchFileContents_one_path: "path (fetchFileContents_one g d p) = p"
  by (auto simp: fetchFileContents_one_def split: sum.splits remote_data.splits)

lemma fetchFileContents_one_fail:
  "\<not> resolves_to_file g p \<Longrightarrow>
     content (fetchFileContents_one g d p) = None \<and> error (fetchFileContents_one g d p) \<noteq> None"
  by (auto simp: fetchFileContents_one_def resolves_to_file_def
      split: sum.splits remote_data.splits)

text \<open>
  C6. For every ordered path list and every positive width (5 by default, and fixed at
  5 in the chat route), the batched fetcher returns one record per input path, in the
  input order. A path that does not resolve to a file (the remote call throws, or the
  path is a directory or another non-file) yields a record with null content and an
  error reason; no error escapes the batch, whose result is always a list of records.
\<close>

theorem batched_fetch_order_and_isolation:
  assumes "0 < maxConcurrent"
  shows "fetchFilesBatch g d paths maxConcurrent = Some (map (fetchFileContent g d) paths)
     \<and> map path (map (fetchFileContent g d) paths) = paths
     \<and> fetchFileContents g d paths = map (fetchFileContents_one g d) paths
     \<and> map path (fetchFileContents g d paths) = paths
     \<and> (\<forall>p. \<not> resolves_to_file g p \<longrightarrow>
           content (fetchFileContent g d p) = None \<and> error (fetchFileContent g d p) \<noteq> None
         \<and> content (fetchFileContents_one g d p) = None
         \<and> error (fetchFileContents_one g d p) \<noteq> None)"
proof -
  have a: "fetchFilesBatch g d paths maxConcurrent = Some (map (fetchFileContent g d) paths)"
    using assms by (simp add: fetchFilesBatch_def concat_map_map chunks_concat)
  have b: "map path (map (fetchFileContent g d) paths) = paths"
    by (induction paths) (simp_all add: fetchFileContent_path)
  have c: "fetchFileContents g d paths = map (fetchFileContents_one g d) paths"
    by (simp add: fetchFileContents_def concat_map_map chunks_concat)
  have e: "map path (fetchFileContents g d paths) = paths"
    unfolding c by (induction paths) (simp_all add: fetchFileContents_one_path)
  show ?thesis
    using a b c e fetchFileContent_fail fetchFileContents_one_fail by blast
qed

theorem batched_fetch_witness:
  "fetchFilesBatch
     (\<lambda>p. if p = of_ascii ''a.js''
           then Inr (Single \<lparr>item_name = of_ascii ''a.js'', item_path = of_ascii ''a.js'',
                              item_type = FILE, item_size = 3, item_content = of_ascii ''eA=='',
                              item_sha = of_ascii ''0''\<rparr>)
           else Inl \<lparr>err_status = Some 404, err_message = of_ascii ''Not Found''\<rparr>)
     (\<lambda>s. s) [of_ascii ''missing.js'', of_ascii ''a.js''] 5
   = Some [\<lparr>path = of_ascii ''missing.js'', content = None, fsize = None, sha = None,
            error = Some (of_ascii ''File not found'')\<rparr>,
           \<lparr>path = of_ascii ''a.js'', content = Some (of_ascii ''eA==''), fsize = Some 3,
            sha = Some (of_ascii ''0''), error = None\<rparr>]"
proof -
  have h: "0 < (5::nat)" by simp
  show ?thesis
    using batched_fetch_order_and_isolation[OF h, of
        "\<lambda>p. if p = of_ascii ''a.js''
           then Inr (Single \<lparr>item_name = of_ascii ''a.js'', item_path = of_ascii ''a.js'',
                              item_type = FILE, item_size = 3, item_content = of_ascii ''eA=='',
                              item_sha = of_ascii ''0''\<rparr>)
           else Inl \<lparr>err_status = Some 404, err_message = of_ascii ''Not Found''\<rparr>"
        "\<lambda>s. s" "[of_ascii ''missing.js'', of_ascii ''a.js'']"]
    by (simp add: fetchFileContent_def fetchFileContent_try_def of_ascii_def FILE_def)
qed

section \<open>Deduplication and the final filter\<close>

lemma dedup_from_seen:
  "x \<in> set (dedup_from seen fs) \<Longrightarrow> dedup_key x \<notin> seen"
  by (induction seen fs rule: dedup_from.induct) (auto split: if_splits)

lemma dedup_from_distinct: "distinct (map dedup_key (dedup_from seen fs))"
  by (induction seen fs rule: dedup_from.induct) (auto dest: dedup_from_seen)

lemma dedup_from_fixed:
  "distinct (map dedup_key fs) \<Longrightarrow> dedup_key ` set fs \<inter> seen = {} \<Longrightarrow> dedup_from seen fs = fs"
  by (induction seen fs rule: dedup_from.induct) auto

lemma dedup_from_append:
  "dedup_from seen (ps @ qs) = dedup_from seen ps @ dedup_from (seen \<union> dedup_key ` set ps) qs"
  by (induction seen ps rule: dedup_from.induct) (auto simp: insert_absorb)

lemma dedup_from_union:
  "dedup_from (seen \<union> T) qs = dedup_from seen (filter (\<lambda>a. dedup_key a \<notin> T) qs)"
proof (induction qs arbitrary: seen)
  case Nil
  then show ?case by simp
next
  case (Cons q qs)
  have ins: "insert (dedup_key q) (seen \<union> T) = insert (dedup_key q) seen \<union> T" by simp
  show ?case
  proof (cases "dedup_key q \<in> T")
    case True
    then show ?thesis using Cons.IH[of seen] Cons.IH[of "insert (dedup_key q) seen"]
      by (simp add: insert_absorb)
  next
    case False
    then show ?thesis using Cons.IH[of seen] Cons.IH[of "insert (dedup_key q) seen"]
      by (simp add: ins del: Un_insert_left)
  qed
qed

lemma upt_shift: "[0..<Suc n] = 0 # map Suc [0..<n]"
  by (simp add: upt_conv_Cons map_Suc_upt del: upt_Suc)

lemma dedup_from_first:
  "dedup_from seen fs =
     map (\<lambda>i. fs ! i)
       (filter (\<lambda>i. dedup_key (fs ! i) \<notin> seen \<union> dedup_key ` set (take i fs)) [0..<length fs])"
proof (induction fs arbitrary: seen)
  case Nil
  then show ?case by simp
next
  case (Cons f fs)
  have len: "[0..<length (f # fs)] = 0 # map Suc [0..<length fs]"
    using upt_shift[of "length fs"] by simp
  show ?case
  proof (cases "dedup_key f \<in> seen")
    case True
    then have eq: "\<And>k R. (k \<notin> seen \<and> k \<noteq> dedup_key f \<and> R) = (k \<notin> seen \<and> R)"
      by auto
    from True show ?thesis
      unfolding len by (simp add: filter_map comp_def Cons.IH[of seen] eq)
  next
    case False
    have eq: "\<And>k R. (k \<noteq> dedup_key f \<and> k \<notin> seen \<and> R) = (k \<notin> seen \<and> k \<noteq> dedup_key f \<and> R)"
      by auto
    from False show ?thesis
      unfolding len by (simp add: filter_map comp_def Cons.IH[of "insert (dedup_key f) seen"] eq)
  qed
qed

text \<open>
  What deduplication does in terms of its key string \<open>file:line:title\<close>: it keeps
  exactly the first occurrence of each key in enumeration order; with pattern
  findings enumerated before model findings, all surviving pattern findings come first
  and a model finding survives only when no pattern finding has its key; and
  deduplicating a deduplicated list returns it unchanged.
\<close>

theorem dedup_keeps_first_key_occurrence:
  "deduplicateFindings fs = first_occurrences dedup_key fs
   \<and> deduplicateFindings (ps @ qs) =
       deduplicateFindings ps @
       deduplicateFindings (filter (\<lambda>a. dedup_key a \<notin> dedup_key ` set ps) qs)
   \<and> deduplicateFindings (deduplicateFindings fs) = deduplicateFindings fs"
proof -
  have a: "deduplicateFindings fs = first_occurrences dedup_key fs"
    using dedup_from_first[of "{}" fs] by (simp add: deduplicateFindings_def first_occurrences_def)
  have b: "deduplicateFindings (ps @ qs) =
       deduplicateFindings ps @
       deduplicateFindings (filter (\<lambda>a. dedup_key a \<notin> dedup_key ` set ps) qs)"
    using dedup_from_append[of "{}" ps qs] dedup_from_union[of "{}" "dedup_key ` set ps" qs]
    by (simp add: deduplicateFindings_def)
  have c: "deduplicateFindings (deduplicateFindings fs) = deduplicateFindings fs"
    unfolding deduplicateFindings_def
    by (rule dedup_from_fixed) (simp_all add: dedup_from_distinct)
  from a b c show ?thesis by blast
qed

text \<open>
  A collision needs a colon in a title or a line that is not a number: the decimal
  rendering of a line number has no colon, so among findings with numeric lines and
  titles free of colons the key determines the file, the line and the title. The
  titles of both rule tables are such, so the findings of the route's pattern scan
  never collide with each other; it takes a finding of the model reply.
\<close>

lemma unat_digit: "a < 10 \<Longrightarrow> unat (digit a) = 48 + a"
proof -
  assume a: "a < 10"
  have "unat (digit a) = (48 + a) mod 2 ^ LENGTH(16)"
    unfolding digit_def by (rule unat_of_nat)
  also have "\<dots> = 48 + a" using a by simp
  finally show ?thesis .
qed

lemma digit_inj: "a < 10 \<Longrightarrow> b < 10 \<Longrightarrow> digit a = digit b \<Longrightarrow> a = b"
proof -
  assume a: "a < 10" and b: "b < 10" and e: "digit a = digit b"
  from e have "unat (digit a) = unat (digit b)" by (rule arg_cong)
  then have "48 + a = 48 + b" by (simp only: unat_digit[OF a] unat_digit[OF b])
  then show "a = b" by simp
qed

lemma digit_plain: "a < 10 \<Longrightarrow> digit a \<noteq> COLON \<and> digit a \<noteq> 0x2D"
proof -
  assume a: "a < 10"
  have "unat COLON = 58" "unat (0x2D :: code_unit) = 45" by (simp_all add: COLON_def)
  then have "unat (digit a) \<noteq> unat COLON" "unat (digit a) \<noteq> unat (0x2D :: code_unit)"
    using a by (simp_all add: unat_digit[OF a])
  then show ?thesis by auto
qed

lemma show_nat_nonempty: "show_nat n \<noteq> []"
  by (subst show_nat.simps) simp

lemma show_nat_plain: "c \<in> set (show_nat n) \<Longrightarrow> c \<noteq> COLON \<and> c \<noteq> 0x2D"
proof (induction n rule: show_nat.induct)
  case (1 n)
  show ?case
  proof (cases "n < 10")
    case True
    with 1(2) have "c = digit n" by (subst (asm) show_nat.simps) simp
    with True digit_plain show ?thesis by simp
  next
    case False
    with 1(2) have "c \<in> set (show_nat (n div 10)) \<or> c = digit (n mod 10)"
      by (subst (asm) show_nat.simps) auto
    then show ?thesis using 1(1)[OF False] digit_plain[of "n mod 10"] by auto
  qed
qed

lemma show_nat_inj: "show_nat m = show_nat n \<Longrightarrow> m = n"
proof (induction m arbitrary: n rule: show_nat.induct)
  case (1 m)
  show ?case
  proof (cases "m < 10")
    case m: True
    show ?thesis
    proof (cases "n < 10")
      case True
      with m 1(2) have "digit m = digit n" by (simp add: show_nat.simps)
      with m True show ?thesis using digit_inj by blast
    next
      case False
      have "length (show_nat n) \<ge> 2"
        using False show_nat_nonempty[of "n div 10"]
        by (subst show_nat.simps) (cases "show_nat (n div 10)", auto)
      moreover have "length (show_nat m) = 1" using m by (simp add: show_nat.simps)
      ultimately show ?thesis using 1(2) by simp
    qed
  next
    case m: False
    show ?thesis
    proof (cases "n < 10")
      case True
      have "length (show_nat m) \<ge> 2"
        using m show_nat_nonempty[of "m div 10"]
        by (subst show_nat.simps) (cases "show_nat (m div 10)", auto)
      moreover have "length (show_nat n) = 1" using True by (simp add: show_nat.simps)
      ultimately show ?thesis using 1(2) by simp
    next
      case False
      have "show_nat (m div 10) @ [digit (m mod 10)] = show_nat (n div 10) @ [digit (n mod 10)]"
        using 1(2) m False by (simp add: show_nat.simps[of m] show_nat.simps[of n])
      then have e: "show_nat (m div 10) = show_nat (n div 10)" "digit (m mod 10) = digit (n mod 10)"
        by simp_all
      from 1(1)[OF m e(1)] have d: "m div 10 = n div 10" .
      have "m mod 10 = n mod 10" using e(2) by (intro digit_inj) simp_all
      with d show ?thesis by (metis div_mult_mod_eq)
    qed
  qed
qed

lemma show_int_plain: "COLON \<notin> set (show_int i)"
  using show_nat_plain by (auto simp: show_int_def of_ascii_def COLON_def)

lemma show_int_inj: "show_int i = show_int j \<Longrightarrow> i = j"
proof -
  assume e: "show_int i = show_int j"
  have hd_nat: "hd (show_nat n) \<noteq> 0x2D" for n
    using show_nat_plain[of "hd (show_nat n)" n] show_nat_nonempty[of n] by auto
  show "i = j"
  proof (cases "i < 0")
    case i: True
    show ?thesis
    proof (cases "j < 0")
      case True
      with i e have "show_nat (nat (- i)) = show_nat (nat (- j))"
        by (simp add: show_int_def)
      from show_nat_inj[OF this] i True show ?thesis by simp
    next
      case False
      with i e have "show_nat (nat j) = 0x2D # show_nat (nat (- i))"
        by (simp add: show_int_def of_ascii_def)
      then have "hd (show_nat (nat j)) = 0x2D" by simp
      with hd_nat show ?thesis by blast
    qed
  next
    case i: False
    show ?thesis
    proof (cases "j < 0")
      case True
      with i e have "show_nat (nat i) = 0x2D # show_nat (nat (- j))"
        by (simp add: show_int_def of_ascii_def)
      then have "hd (show_nat (nat i)) = 0x2D" by simp
      with hd_nat show ?thesis by blast
    next
      case False
      with i e have "show_nat (nat i) = show_nat (nat j)" by (simp add: show_int_def)
      from show_nat_inj[OF this] i False show ?thesis by simp
    qed
  qed
qed

lemma split_at_first:
  "u @ c # a = v @ c # b \<Longrightarrow> c \<notin> set u \<Longrightarrow> c \<notin> set v \<Longrightarrow> u = v \<and> a = b"
proof (induction u arbitrary: v)
  case Nil
  then show ?case by (cases v) auto
next
  case (Cons x u)
  then show ?case by (cases v) auto
qed

lemma split_at_last:
  assumes "xs @ c # t = ys @ c # t'" "c \<notin> set t" "c \<notin> set t'"
  shows "xs = ys \<and> t = t'"
proof -
  have "rev t @ c # rev xs = rev t' @ c # rev ys"
    using arg_cong[OF assms(1), of rev] by simp
  from split_at_first[OF this] assms(2,3) show ?thesis by simp
qed

lemma dedup_key_identifies_triple:
  assumes "dedup_key f = dedup_key g" "COLON \<notin> set (title f)" "COLON \<notin> set (title g)"
    and "line f = Number i" "line g = Number j"
  shows "ffile f = ffile g \<and> line f = line g \<and> title f = title g"
proof -
  have "(ffile f @ COLON # show_int i) @ COLON # title f
      = (ffile g @ COLON # show_int j) @ COLON # title g"
    using assms(1,4,5) by (simp add: dedup_key_def)
  from split_at_last[OF this assms(2,3)]
  have t: "title f = title g" and r: "ffile f @ COLON # show_int i = ffile g @ COLON # show_int j"
    by simp_all
  from split_at_last[OF r show_int_plain show_int_plain]
  have "ffile f = ffile g" "show_int i = show_int j" by simp_all
  with t show_int_inj assms(4,5) show ?thesis by auto
qed

lemma rule_titles_plain:
  "list_all (\<lambda>r. COLON \<notin> set (rule_title r)) SECURITY_PATTERNS"
  "list_all (\<lambda>r. COLON \<notin> set (rule_title r)) ROUTE_SECURITY_PATTERNS"
  by (simp_all add: SECURITY_PATTERNS_def ROUTE_SECURITY_PATTERNS_def mk_rule_def of_ascii_def
      COLON_def)

lemma scan_rules_findings:
  "scan_rules rs mk src = Some found \<Longrightarrow> f \<in> set found \<Longrightarrow> \<exists>r\<in>set rs. \<exists>m. f = mk r m"
proof (induction rs arbitrary: found)
  case Nil
  then show ?case by simp
next
  case (Cons r rs)
  from Cons.prems(1) obtain ms others where
    ms: "exec_all (pattern r) None src 0 = Some ms"
    and others: "scan_rules rs mk src = Some others"
    and found: "found = map (mk r) ms @ others"
    by (auto split: option.splits)
  from Cons.prems(2) found consider "f \<in> set (map (mk r) ms)" | "f \<in> set others" by auto
  then show ?case
  proof cases
    case 1
    then show ?thesis by auto
  next
    case 2
    from Cons.IH[OF others 2] show ?thesis by auto
  qed
qed

lemma pattern_findings_plain:
  "runPatternScan fs = Some found \<Longrightarrow> f \<in> set found
   \<Longrightarrow> COLON \<notin> set (title f) \<and> (\<exists>n. line f = Number n)"
proof (induction fs arbitrary: found)
  case Nil
  then show ?case by simp
next
  case (Cons x fs)
  show ?case
  proof (cases "no_content x")
    case True
    with Cons show ?thesis by simp
  next
    case False
    with Cons.prems(1) obtain here others where
      here: "scan_rules ROUTE_SECURITY_PATTERNS
               (route_finding_of (path x) (split_nl (content_of x))) (content_of x) = Some here"
      and others: "runPatternScan fs = Some others"
      and found: "found = here @ others"
      by (auto split: option.splits)
    from Cons.prems(2) found consider "f \<in> set here" | "f \<in> set others" by auto
    then show ?thesis
    proof cases
      case 1
      from scan_rules_findings[OF here 1] obtain r m where
        r: "r \<in> set ROUTE_SECURITY_PATTERNS"
        and f: "f = route_finding_of (path x) (split_nl (content_of x)) r m"
        by blast
      from r rule_titles_plain(2) have "COLON \<notin> set (rule_title r)"
        by (simp add: list_all_iff)
      then show ?thesis by (simp add: f route_finding_of_def)
    next
      case 2
      from Cons.IH[OF others 2] show ?thesis .
    qed
  qed
qed

lemma pattern_findings_do_not_collide:
  assumes "runPatternScan fs = Some found" "f \<in> set found" "g \<in> set found"
    and "dedup_key f = dedup_key g"
  shows "ffile f = ffile g \<and> line f = line g \<and> title f = title g"
proof -
  from pattern_findings_plain[OF assms(1,2)] obtain i where
    f: "COLON \<notin> set (title f)" "line f = Number i" by blast
  from pattern_findings_plain[OF assms(1,3)] obtain j where
    g: "COLON \<notin> set (title g)" "line g = Number j" by blast
  from dedup_key_identifies_triple[OF assms(4) f(1) g(1) f(2) g(2)] show ?thesis .
qed

text \<open>
  C9. Deduplication is meant to keep the first finding of each (file, line, title).
  Its key is the three values joined by colons, with no escaping, so two findings
  with different triples can have the same key, and the later one is dropped although
  it duplicates nothing. The model reply of a scan that reports \<open>("a:1", 2, "x")\<close>
  and \<open>("a", 1, "2:x")\<close> gives two findings with the key \<open>a:1:2:x\<close>; only the
  first survives.
\<close>

theorem dedup_key_collision:
  "(of_ascii ''a:1'', Number 2, of_ascii ''x'') \<noteq> (of_ascii ''a'', Number 1, of_ascii ''2:x'')
   \<and> deduplicateFindings
       (runAIScan (\<lambda>k. 0)
          (AiFindings
             [\<lparr>ai_file = of_ascii ''a:1'', ai_line = Number 2, ai_type = of_ascii ''XSS'',
               ai_severity = HIGH, ai_title = of_ascii ''x'', ai_description = [], ai_fix = []\<rparr>,
              \<lparr>ai_file = of_ascii ''a'', ai_line = Number 1, ai_type = of_ascii ''XSS'',
               ai_severity = HIGH, ai_title = of_ascii ''2:x'', ai_description = [], ai_fix = []\<rparr>])
          [])
     = [\<lparr>fid = of_ascii ''ai-a:1-2-0'', ffile = of_ascii ''a:1'', line = Number 2,
         ftype = of_ascii ''XSS'', severity = HIGH, title = of_ascii ''x'', description = [],
         fix_text = [], matched = None, snippet = None, confidence = MEDIUM,
         source = Some (of_ascii ''ai'')\<rparr>]"
  by (simp add: deduplicateFindings_def runAIScan_def dedup_key_def show_int_def show_nat.simps
      digit_def of_ascii_def COLON_def HIGH_def MEDIUM_def)

text \<open>
  C7. The final scan filter retains exactly the findings whose severity is critical
  or high, or whose confidence is high whatever the severity; a critical finding, a
  medium finding of other than high confidence and a medium finding of high confidence
  leave exactly the first and the third.
\<close>

theorem final_filter_retains:
  "(f \<in> set (filteredFindings fs)) =
     (f \<in> set fs \<and> (severity f = CRITICAL \<or> severity f = HIGH \<or> confidence f = HIGH))
   \<and> (severity c = CRITICAL \<and> severity m = MEDIUM \<and> confidence m \<noteq> HIGH
        \<and> severity h = MEDIUM \<and> confidence h = HIGH
       \<longrightarrow> filteredFindings [c, m, h] = [c, h])"
  by (auto simp: filteredFindings_def keeps_def CRITICAL_def HIGH_def MEDIUM_def of_ascii_def)

theorem final_filter_witness:
  "filteredFindings
     [\<lparr>fid = [], ffile = of_ascii ''a.js'', line = Number 1, ftype = [], severity = CRITICAL,
       title = of_ascii ''t1'', description = [], fix_text = [], matched = None,
       snippet = None, confidence = MEDIUM, source = Some (of_ascii ''ai'')\<rparr>,
      \<lparr>fid = [], ffile = of_ascii ''a.js'', line = Number 2, ftype = [], severity = MEDIUM,
       title = of_ascii ''t2'', description = [], fix_text = [], matched = None,
       snippet = None, confidence = LOW, source = Some (of_ascii ''ai'')\<rparr>,
      \<lparr>fid = [], ffile = of_ascii ''a.js'', line = Number 3, ftype = [], severity = MEDIUM,
       title = of_ascii ''t3'', description = [], fix_text = [], matched = None,
       snippet = None, confidence = HIGH, source = Some (of_ascii ''pattern'')\<rparr>]
   = [\<lparr>fid = [], ffile = of_ascii ''a.js'', line = Number 1, ftype = [], severity = CRITICAL,
       title = of_ascii ''t1'', description = [], fix_text = [], matched = None,
       snippet = None, confidence = MEDIUM, source = Some (of_ascii ''ai'')\<rparr>,
      \<lparr>fid = [], ffile = of_ascii ''a.js'', line = Number 3, ftype = [], severity = MEDIUM,
       title = of_ascii ''t3'', description = [], fix_text = [], matched = None,
       snippet = None, confidence = HIGH, source = Some (of_ascii ''pattern'')\<rparr>]"
  using final_filter_retains[of _ _
      "\<lparr>fid = [], ffile = of_ascii ''a.js'', line = Number 1, ftype = [], severity = CRITICAL,
       title = of_ascii ''t1'', description = [], fix_text = [], matched = None,
       snippet = None, confidence = MEDIUM, source = Some (of_ascii ''ai'')\<rparr>"
      "\<lparr>fid = [], ffile = of_ascii ''a.js'', line = Number 2, ftype = [], severity = MEDIUM,
       title = of_ascii ''t2'', description = [], fix_text = [], matched = None,
       snippet = None, confidence = LOW, source = Some (of_ascii ''ai'')\<rparr>"
      "\<lparr>fid = [], ffile = of_ascii ''a.js'', line = Number 3, ftype = [], severity = MEDIUM,
       title = of_ascii ''t3'', description = [], fix_text = [], matched = None,
       snippet = None, confidence = HIGH, source = Some (of_ascii ''pattern'')\<rparr>"]
  by (simp add: LOW_def HIGH_def of_ascii_def)

section \<open>Tree rendering and re-parsing\<close>

lemma split_nl_nonempty: "split_nl s \<noteq> []"
  by (induction s) (auto split: list.splits)

lemma split_nl_line: "NL \<notin> set l \<Longrightarrow> split_nl (l @ NL # rest) = l # split_nl rest"
  by (induction l) (auto split: list.splits)

lemma tree_line_names_line:
  "NL \<notin> set l \<Longrightarrow>
   tree_line_names (l @ NL # rest) =
     (case matchTreeLine l of None \<Rightarrow> [] | Some n \<Rightarrow> [n]) @ tree_line_names rest"
  by (simp add: tree_line_names_def split_nl_line split: option.splits)

lemma tree_line_names_Nil: "tree_line_names [] = []"
  by (simp add: tree_line_names_def)

lemma matchTreeLine_connector:
  assumes "set pre \<subseteq> {0x20, 0x2502}" "conn = MID_CONNECTOR \<or> conn = LAST_CONNECTOR"
    "nm \<noteq> []" "\<not> list_ex is_line_terminator nm"
  shows "matchTreeLine (pre @ conn @ nm) = Some nm"
  using assms
proof (induction pre)
  case Nil
  then show ?case by (auto simp: MID_CONNECTOR_def LAST_CONNECTOR_def)
next
  case (Cons c pre)
  then have "c = 0x20 \<or> c = 0x2502" by auto
  then have "c \<noteq> 0x251C \<and> c \<noteq> 0x2514" by auto
  with Cons show ?case by simp
qed

lemma line_no_NL:
  assumes "set pre \<subseteq> {0x20, 0x2502}" "conn = MID_CONNECTOR \<or> conn = LAST_CONNECTOR"
    "\<not> list_ex is_line_terminator nm"
  shows "NL \<notin> set (pre @ conn @ nm)"
proof -
  have "NL \<notin> set nm" using assms(3) by (auto simp: list_ex_iff is_line_terminator_def NL_def)
  moreover have "NL \<notin> set pre" using assms(1) by (auto simp: NL_def)
  moreover have "NL \<notin> set conn" using assms(2) by (auto simp: NL_def MID_CONNECTOR_def LAST_CONNECTOR_def)
  ultimately show ?thesis by simp
qed


lemma render_parse:
  "(\<forall>nm \<in> all_names t. good_name nm) \<Longrightarrow> set pre \<subseteq> {0x20, 0x2502} \<Longrightarrow>
   tree_line_names (treeToString t pre @ suffix) = rendered_names t @ tree_line_names suffix"
proof (induction t pre arbitrary: suffix rule: treeToString.induct)
  case (1 pre)
  then show ?case by simp
next
  case (2 nm p ty sz ch rest pre)
  define conn where "conn = (if rest = [] then LAST_CONNECTOR else MID_CONNECTOR)"
  define cp where "cp = (if rest = [] then LAST_CHILD_PREFIX else MID_CHILD_PREFIX)"
  define kids where "kids = (case ch of None \<Rightarrow> []
     | Some cs \<Rightarrow> if length cs > 0 then treeToString cs (pre @ cp) else [])"
  have gn: "nm \<noteq> []" "\<not> list_ex is_line_terminator nm"
    using 2(3) by (simp_all add: good_name_def)
  have conn: "conn = MID_CONNECTOR \<or> conn = LAST_CONNECTOR" by (simp add: conn_def)
  have nl: "NL \<notin> set (pre @ conn @ nm)"
    by (rule line_no_NL[OF 2(4) conn gn(2)])
  have m: "matchTreeLine (pre @ conn @ nm) = Some nm"
    by (rule matchTreeLine_connector[OF 2(4) conn gn])
  have cp: "set (pre @ cp) \<subseteq> {0x20, 0x2502}"
    using 2(4) by (auto simp: cp_def LAST_CHILD_PREFIX_def MID_CHILD_PREFIX_def)
  have rest_ok: "\<forall>nm \<in> all_names rest. good_name nm" using 2(3) by simp
  have IHrest: "tree_line_names (treeToString rest pre @ sfx) = rendered_names rest @ tree_line_names sfx" for sfx
    using 2(2)[OF rest_ok 2(4)] by simp
  have kids: "tree_line_names (kids @ sfx) =
       (case ch of None \<Rightarrow> [] | Some cs \<Rightarrow> rendered_names cs) @ tree_line_names sfx" for sfx
  proof (cases ch)
    case None
    then show ?thesis by (simp add: kids_def)
  next
    case (Some cs)
    show ?thesis
    proof (cases "length cs > 0")
      case True
      have ok: "\<forall>nm \<in> all_names cs. good_name nm" using 2(3) Some by simp
      have "tree_line_names (treeToString cs (pre @ cp) @ sfx) = rendered_names cs @ tree_line_names sfx"
        using 2(1)[OF Some True ok] cp unfolding cp_def by simp
      then show ?thesis using Some True by (simp add: kids_def)
    next
      case False
      then show ?thesis using Some by (simp add: kids_def)
    qed
  qed
  have eq: "treeToString (Node nm p ty sz ch # rest) pre @ suffix
        = (pre @ conn @ nm) @ NL # (kids @ (treeToString rest pre @ suffix))"
    unfolding kids_def conn_def cp_def by simp
  have "tree_line_names (treeToString (Node nm p ty sz ch # rest) pre @ suffix)
        = tree_line_names ((pre @ conn @ nm) @ NL # (kids @ (treeToString rest pre @ suffix)))"
    by (simp only: eq)
  also have "\<dots> = [nm] @ tree_line_names (kids @ (treeToString rest pre @ suffix))"
    by (simp only: tree_line_names_line[OF nl] m option.case)
  also have "\<dots> = [nm] @ (case ch of None \<Rightarrow> [] | Some cs \<Rightarrow> rendered_names cs)
        @ rendered_names rest @ tree_line_names suffix"
    using kids IHrest by simp
  finally show ?case by simp
qed

text \<open>
  C8, as amended. For every tree whose node names are non-empty and contain no line
  terminator (line feed, carriage return, U+2028, U+2029), re-parsing the
  connector-prefixed lines of its text rendering recovers exactly the sequence of node
  names in rendering order.
\<close>

theorem tree_names_round_trip:
  assumes "\<forall>nm \<in> all_names t. nm \<noteq> [] \<and> \<not> list_ex is_line_terminator nm"
  shows "tree_line_names (treeToString t []) = rendered_names t"
  using render_parse[of t "[]" "[]"] assms by (simp add: good_name_def tree_line_names_Nil)

theorem tree_names_round_trip_witness:
  "tree_line_names
     (treeToString
        [Node (of_ascii ''src'') (of_ascii ''src'') DIR 0
           (Some [Node (of_ascii ''index.js'') (of_ascii ''src/index.js'') FILE 10 None]),
         Node (of_ascii ''README.md'') (of_ascii ''README.md'') FILE 20 None] [])
   = [of_ascii ''src'', of_ascii ''index.js'', of_ascii ''README.md'']"
  using tree_names_round_trip[where t =
      "[Node (of_ascii ''src'') (of_ascii ''src'') DIR 0
           (Some [Node (of_ascii ''index.js'') (of_ascii ''src/index.js'') FILE 10 None]),
         Node (of_ascii ''README.md'') (of_ascii ''README.md'') FILE 20 None]"]
  by (simp add: of_ascii_def is_line_terminator_def)

text \<open>
  C8 as stated fails: a file name may contain a line feed. The rendering of the
  one-node tree whose name is \<open>a\<close>, a line feed, \<open>b\<close> has the lines \<open>[connector]a\<close> and \<open>b\<close>, and
  re-parsing yields \<open>a\<close>.
\<close>

theorem newline_name_not_recovered:
  "tree_line_names (treeToString [Node (of_ascii ''a'' @ [NL] @ of_ascii ''b'') (of_ascii ''a'' @ [NL] @ of_ascii ''b'') FILE 0 None] [])
     = [of_ascii ''a'']
   \<and> rendered_names [Node (of_ascii ''a'' @ [NL] @ of_ascii ''b'') (of_ascii ''a'' @ [NL] @ of_ascii ''b'') FILE 0 None]
     = [of_ascii ''a'' @ [NL] @ of_ascii ''b'']"
  by (simp add: tree_line_names_def LAST_CONNECTOR_def NL_def of_ascii_def
      is_line_terminator_def)

section \<open>Tree acquisition: skipped directories and the depth cap\<close>

lemma set_insert_by: "set (insert_by cmp x ys) = insert x (set ys)"
  by (induction ys) auto

lemma set_sort_by: "set (sort_by cmp xs) = set xs"
  by (induction xs) (simp_all add: sort_by_def set_insert_by)

lemma dirs_avoid_iff:
  "dirs_avoid names t =
     (\<forall>n \<in> set t. (node_type n = DIR \<longrightarrow> node_name n \<notin> set names)
        \<and> (case children n of None \<Rightarrow> True | Some cs \<Rightarrow> dirs_avoid names cs))"
proof (induction t)
  case Nil
  then show ?case by simp
next
  case (Cons n t)
  then show ?case by (cases n) simp
qed

lemma depth_within_iff:
  "depth_within cap d t =
     (\<forall>n \<in> set t. d \<le> cap
        \<and> (case children n of None \<Rightarrow> True | Some cs \<Rightarrow> depth_within cap (Suc d) cs))"
proof (induction t)
  case Nil
  then show ?case by simp
next
  case (Cons n t)
  then show ?case by (cases n) auto
qed

lemma build_tree_invariant:
  "dirs_avoid skipDirs (build_tree skipDirs maxDepth lc g p depth)
   \<and> depth_within maxDepth depth (build_tree skipDirs maxDepth lc g p depth)"
proof (induction skipDirs maxDepth lc g p depth rule: build_tree.induct)
  case (1 skipDirs maxDepth lc g p depth)
  show ?case
  proof (cases "depth > maxDepth")
    case True
    then show ?thesis by (simp add: build_tree.simps)
  next
    case shallow: False
    show ?thesis
    proof (cases "g p")
      case (Inl e)
      with shallow show ?thesis by (simp add: build_tree.simps)
    next
      case (Inr contents)
      define items where "items = filter (\<lambda>it. \<not> (item_type it = DIR \<and> item_name it \<in> set skipDirs))
                        (case contents of Listing xs \<Rightarrow> xs | Single it \<Rightarrow> [it])"
      define mk where "mk = (\<lambda>it::item. Node (item_name it) (item_path it) (item_type it) (item_size it)
                          (if item_type it = DIR \<and> depth < maxDepth
                           then Some (build_tree skipDirs maxDepth lc g (item_path it) (depth + 1))
                           else None))"
      have bt: "build_tree skipDirs maxDepth lc g p depth = sort_by (compare_nodes lc) (map mk items)"
        using shallow Inr by (simp add: build_tree.simps[of skipDirs maxDepth lc g p depth] items_def mk_def)
      have IH: "dirs_avoid skipDirs (build_tree skipDirs maxDepth lc g (item_path it) (depth + 1))
             \<and> depth_within maxDepth (depth + 1) (build_tree skipDirs maxDepth lc g (item_path it) (depth + 1))"
        if "it \<in> set items" "item_type it = DIR" "depth < maxDepth" for it
        using 1[OF shallow Inr, of it] that by (simp add: items_def)
      have a: "dirs_avoid skipDirs (sort_by (compare_nodes lc) (map mk items))"
        unfolding dirs_avoid_iff[of skipDirs "sort_by (compare_nodes lc) (map mk items)"] set_sort_by
      proof
        fix n assume "n \<in> set (map mk items)"
        then obtain it where it: "it \<in> set items" "n = mk it" by auto
        have "\<not> (item_type it = DIR \<and> item_name it \<in> set skipDirs)" using it(1) by (simp add: items_def)
        then show "(node_type n = DIR \<longrightarrow> node_name n \<notin> set skipDirs)
            \<and> (case children n of None \<Rightarrow> True | Some cs \<Rightarrow> dirs_avoid skipDirs cs)"
          using IH[OF it(1)] by (simp add: it(2) mk_def)
      qed
      have b: "depth_within maxDepth depth (sort_by (compare_nodes lc) (map mk items))"
        unfolding depth_within_iff[of maxDepth depth "sort_by (compare_nodes lc) (map mk items)"] set_sort_by
      proof
        fix n assume "n \<in> set (map mk items)"
        then obtain it where it: "it \<in> set items" "n = mk it" by auto
        show "depth \<le> maxDepth
            \<and> (case children n of None \<Rightarrow> True | Some cs \<Rightarrow> depth_within maxDepth (Suc depth) cs)"
          using IH[OF it(1)] shallow by (simp add: it(2) mk_def)
      qed
      from a b show ?thesis by (simp only: bt)
    qed
  qed
qed

text \<open>
  C4, as amended. For every tree returned by tree acquisition, no directory node's
  name is in the skip list of the function that built it (nine names in the fetch
  route, seven in the library version), each such directory being left out whole, and
  no node's depth exceeds the depth cap (4 in the route, \<open>maxDepth\<close> in the library
  version), the listing of the start path being at the start depth.
\<close>

theorem tree_skips_dirs_and_respects_cap:
  "dirs_avoid ROUTE_SKIP_DIRS (route_buildFileTree lc g p depth)
   \<and> depth_within 4 depth (route_buildFileTree lc g p depth)
   \<and> dirs_avoid LIB_SKIP_DIRS (buildFileTree lc g p depth maxDepth)
   \<and> depth_within maxDepth depth (buildFileTree lc g p depth maxDepth)"
  using build_tree_invariant[of ROUTE_SKIP_DIRS 4 lc g p depth]
    build_tree_invariant[of LIB_SKIP_DIRS maxDepth lc g p depth]
  by (simp add: route_buildFileTree_def buildFileTree_def)

theorem tree_skips_dirs_witness:
  "route_buildFileTree (\<lambda>a b. 0)
     (\<lambda>p. if p = [] then
             Inr (Listing [\<lparr>item_name = of_ascii ''node_modules'', item_path = of_ascii ''node_modules'',
                            item_type = DIR, item_size = 0, item_content = [], item_sha = []\<rparr>,
                           \<lparr>item_name = of_ascii ''a.js'', item_path = of_ascii ''a.js'',
                            item_type = FILE, item_size = 7, item_content = [], item_sha = []\<rparr>])
           else Inl \<lparr>err_status = Some 404, err_message = of_ascii ''Not Found''\<rparr>)
     [] 0
   = [Node (of_ascii ''a.js'') (of_ascii ''a.js'') FILE 7 None]
   \<and> dirs_avoid ROUTE_SKIP_DIRS
        (route_buildFileTree (\<lambda>a b. 0)
     (\<lambda>p. if p = [] then
             Inr (Listing [\<lparr>item_name = of_ascii ''node_modules'', item_path = of_ascii ''node_modules'',
                            item_type = DIR, item_size = 0, item_content = [], item_sha = []\<rparr>,
                           \<lparr>item_name = of_ascii ''a.js'', item_path = of_ascii ''a.js'',
                            item_type = FILE, item_size = 7, item_content = [], item_sha = []\<rparr>])
           else Inl \<lparr>err_status = Some 404, err_message = of_ascii ''Not Found''\<rparr>)
     [] 0)"
proof -
  have "route_buildFileTree (\<lambda>a b. 0)
     (\<lambda>p. if p = [] then
             Inr (Listing [\<lparr>item_name = of_ascii ''node_modules'', item_path = of_ascii ''node_modules'',
                            item_type = DIR, item_size = 0, item_content = [], item_sha = []\<rparr>,
                           \<lparr>item_name = of_ascii ''a.js'', item_path = of_ascii ''a.js'',
                            item_type = FILE, item_size = 7, item_content = [], item_sha = []\<rparr>])
           else Inl \<lparr>err_status = Some 404, err_message = of_ascii ''Not Found''\<rparr>)
     [] 0
   = [Node (of_ascii ''a.js'') (of_ascii ''a.js'') FILE 7 None]"
    unfolding route_buildFileTree_def
    by (subst build_tree.simps)
       (simp add: sort_by_def FILE_def DIR_def ROUTE_SKIP_DIRS_def of_ascii_def)
  then show ?thesis
    using tree_skips_dirs_and_respects_cap[where lc = "\<lambda>a b. 0" and g =
     "\<lambda>p. if p = [] then
             Inr (Listing [\<lparr>item_name = of_ascii ''node_modules'', item_path = of_ascii ''node_modules'',
                            item_type = DIR, item_size = 0, item_content = [], item_sha = []\<rparr>,
                           \<lparr>item_name = of_ascii ''a.js'', item_path = of_ascii ''a.js'',
                            item_type = FILE, item_size = 7, item_content = [], item_sha = []\<rparr>])
           else Inl \<lparr>err_status = Some 404, err_message = of_ascii ''Not Found''\<rparr>"
        and p = "[]" and depth = 0]
    by blast
qed

text \<open>
  C4 as stated fails: the skip test applies to directories only. A file named
  \<open>build\<close> is listed, and its name is in the skip set.
\<close>

theorem file_named_build_is_listed:
  "route_buildFileTree (\<lambda>a b. 0)
     (\<lambda>p. Inr (Listing [\<lparr>item_name = of_ascii ''build'', item_path = of_ascii ''build'',
                            item_type = FILE, item_size = 7, item_content = [],
                            item_sha = []\<rparr>]))
     [] 0
   = [Node (of_ascii ''build'') (of_ascii ''build'') FILE 7 None]
   \<and> of_ascii ''build'' \<in> set ROUTE_SKIP_DIRS
   \<and> \<not> names_avoid ROUTE_SKIP_DIRS
         (route_buildFileTree (\<lambda>a b. 0)
            (\<lambda>p. Inr (Listing [\<lparr>item_name = of_ascii ''build'', item_path = of_ascii ''build'',
                            item_type = FILE, item_size = 7, item_content = [],
                            item_sha = []\<rparr>]))
            [] 0)"
  unfolding route_buildFileTree_def
  by (subst build_tree.simps, subst (2) build_tree.simps)
     (simp add: sort_by_def FILE_def DIR_def ROUTE_SKIP_DIRS_def of_ascii_def)

section \<open>Relevance selector\<close>



lemma selection_raises_without_client:
  "analyzeFileSelection lower (Inl e) reply query fileTree owner repo = Inl e"
  by (simp add: analyzeFileSelection_def)




section \<open>Context assembler\<close>

lemma estimateTokens_nonneg: "0 \<le> estimateTokens t"
proof -
  have "0 \<le> (int (length t) + 3) div 4" by (rule pos_imp_zdiv_nonneg_iff[THEN iffD2]) simp_all
  then show ?thesis by (simp add: estimateTokens_def CHARS_PER_TOKEN_def add.commute)
qed

lemma blocks_tokens_nonneg: "0 \<le> blocks_tokens fs"
  unfolding blocks_tokens_def by (induction fs) (auto simp: with_content_def estimateTokens_nonneg)

lemma blocks_tokens_Cons:
  "blocks_tokens (f # fs) = (if no_content f then 0 else estimateTokens (fileBlock f)) + blocks_tokens fs"
  by (simp add: blocks_tokens_def with_content_def)

lemma blocks_text_Cons:
  "blocks_text (f # fs) = (if no_content f then [] else fileBlock f) @ blocks_text fs"
  by (simp add: blocks_text_def with_content_def)

lemma included_whole_Cons:
  "included_whole (f # fs) = (if no_content f then [] else [(path f, False)]) @ included_whole fs"
  by (simp add: included_whole_def with_content_def)

lemma with_content_Cons:
  "with_content (f # fs) = (if no_content f then [] else [f]) @ with_content fs"
  by (simp add: with_content_def)

lemma after_Nil: "after [] st = st"
  by (simp add: after_def blocks_text_def blocks_tokens_def included_whole_def with_content_def)

lemma loop_prefix:
  "with_content pre = [] \<or> totalTokens st + blocks_tokens pre \<le> maxTokens \<Longrightarrow>
   buildContext_loop maxTokens (pre @ rest) st = buildContext_loop maxTokens rest (after pre st)"
proof (induction pre arbitrary: st)
  case Nil
  then show ?case by (simp add: after_Nil)
next
  case (Cons f pre)
  show ?case
  proof (cases "no_content f")
    case True
    have "with_content pre = [] \<or> totalTokens st + blocks_tokens pre \<le> maxTokens"
      using Cons.prems True by (simp add: with_content_Cons blocks_tokens_Cons)
    from Cons.IH[OF this] True show ?thesis
      by (simp add: after_def blocks_text_Cons blocks_tokens_Cons included_whole_Cons)
  next
    case False
    define st' where "st' = st\<lparr>context_text := context_text st @ fileBlock f,
                 totalTokens := totalTokens st + estimateTokens (fileBlock f),
                 includedFiles := includedFiles st @ [(path f, False)]\<rparr>"
    have fit: "totalTokens st + estimateTokens (fileBlock f) + blocks_tokens pre \<le> maxTokens"
      using Cons.prems False by (simp add: with_content_Cons blocks_tokens_Cons)
    then have nov: "\<not> totalTokens st + estimateTokens (fileBlock f) > maxTokens"
      using blocks_tokens_nonneg[of pre] by linarith
    have "with_content pre = [] \<or> totalTokens st' + blocks_tokens pre \<le> maxTokens"
      using fit by (simp add: st'_def)
    from Cons.IH[OF this] have "buildContext_loop maxTokens (pre @ rest) st'
        = buildContext_loop maxTokens rest (after pre st')" .
    moreover have "after pre st' = after (f # pre) st"
      using False by (simp add: after_def st'_def blocks_text_Cons blocks_tokens_Cons
          included_whole_Cons add.assoc)
    moreover have "buildContext_loop maxTokens ((f # pre) @ rest) st
        = buildContext_loop maxTokens (pre @ rest) st'"
      using False nov by (simp add: st'_def)
    ultimately show ?thesis by simp
  qed
qed

lemma after_st0:
  "after pre st0 = \<lparr>context_text = blocks_text pre, totalTokens = blocks_tokens pre,
                     includedFiles = included_whole pre, skippedFiles = []\<rparr>"
  by (simp add: after_def st0_def)

lemma truncated_prefix:
  assumes "estimateTokens c > R" "0 \<le> R"
  shows "\<exists>n\<le>nat (4 * R). t_text (truncateToTokenLimit c R) = take n c @ TRUNCATION_MARKER"
proof -
  define tr where "tr = slice0 c (R * CHARS_PER_TOKEN)"
  have tr: "tr = take (nat (4 * R)) c"
    using assms(2) by (simp add: tr_def slice0_def CHARS_PER_TOKEN_def mult.commute)
  define ln where "ln = lastIndexOf tr NL"
  show ?thesis
  proof (cases "5 * ln > 4 * (R * CHARS_PER_TOKEN)")
    case True
    then have pos: "0 \<le> ln" using assms(2) by (simp add: CHARS_PER_TOKEN_def)
    have "ln < int (length tr)" by (simp add: ln_def lastIndexOf_def)
    then have le: "nat ln \<le> nat (4 * R)" using tr pos by auto
    have "t_text (truncateToTokenLimit c R) = slice0 tr ln @ TRUNCATION_MARKER"
      using assms(1) True by (simp add: truncateToTokenLimit_def Let_def tr_def ln_def)
    also have "slice0 tr ln = take (nat ln) c"
      using pos le by (simp add: slice0_def tr min_def)
    finally show ?thesis using le by blast
  next
    case False
    then have "t_text (truncateToTokenLimit c R) = tr @ TRUNCATION_MARKER"
      using assms(1) by (simp add: truncateToTokenLimit_def Let_def tr_def ln_def)
    then show ?thesis using tr by blast
  qed
qed

text \<open>
  C3, as amended. The context assembler appends whole file blocks while they fit
  (files without content are passed over). On the first block that would exceed the
  budget it computes the remaining allowance minus a 100-token safety buffer; if that
  allowance exceeds 500 tokens it appends the header and the truncation of that file's
  content to the allowance, records the file as truncated and stops; otherwise it
  records that file alone as skipped and stops. Later files are recorded nowhere. The
  truncation of a content that exceeds the allowance is a prefix of it followed by
  the truncation marker.
\<close>

theorem context_assembly_steps:
  "((with_content fs = [] \<or> blocks_tokens fs \<le> maxTokens) \<longrightarrow>
      buildContextWithLimit fs maxTokens =
        \<lparr>context_text = blocks_text fs, totalTokens = blocks_tokens fs,
         includedFiles = included_whole fs, skippedFiles = []\<rparr>)
   \<and> (((with_content pre = [] \<or> blocks_tokens pre \<le> maxTokens) \<and> \<not> no_content f
        \<and> blocks_tokens pre + estimateTokens (fileBlock f) > maxTokens) \<longrightarrow>
      buildContextWithLimit (pre @ f # post) maxTokens =
        (if maxTokens - blocks_tokens pre - 100 > 500
         then \<lparr>context_text = blocks_text pre @ fileHeader f
                  @ t_text (truncateToTokenLimit (content_of f)
                              (maxTokens - blocks_tokens pre - 100)) @ [NL],
               totalTokens = blocks_tokens pre,
               includedFiles = included_whole pre @ [(path f, True)],
               skippedFiles = []\<rparr>
         else \<lparr>context_text = blocks_text pre, totalTokens = blocks_tokens pre,
               includedFiles = included_whole pre, skippedFiles = [path f]\<rparr>))
   \<and> ((estimateTokens c > R \<and> 0 \<le> R) \<longrightarrow>
        (\<exists>n\<le>nat (4 * R). t_text (truncateToTokenLimit c R) = take n c @ TRUNCATION_MARKER))"
proof -
  have a: "(with_content fs = [] \<or> blocks_tokens fs \<le> maxTokens) \<longrightarrow>
      buildContextWithLimit fs maxTokens =
        \<lparr>context_text = blocks_text fs, totalTokens = blocks_tokens fs,
         includedFiles = included_whole fs, skippedFiles = []\<rparr>"
  proof
    assume "with_content fs = [] \<or> blocks_tokens fs \<le> maxTokens"
    then have "with_content fs = [] \<or> totalTokens st0 + blocks_tokens fs \<le> maxTokens"
      by (simp add: st0_def)
    from loop_prefix[OF this, of "[]"] show "buildContextWithLimit fs maxTokens =
        \<lparr>context_text = blocks_text fs, totalTokens = blocks_tokens fs,
         includedFiles = included_whole fs, skippedFiles = []\<rparr>"
      by (simp add: buildContextWithLimit_def after_st0 st0_def[symmetric])
  qed
  have b: "((with_content pre = [] \<or> blocks_tokens pre \<le> maxTokens) \<and> \<not> no_content f
        \<and> blocks_tokens pre + estimateTokens (fileBlock f) > maxTokens) \<longrightarrow>
      buildContextWithLimit (pre @ f # post) maxTokens =
        (if maxTokens - blocks_tokens pre - 100 > 500
         then \<lparr>context_text = blocks_text pre @ fileHeader f
                  @ t_text (truncateToTokenLimit (content_of f)
                              (maxTokens - blocks_tokens pre - 100)) @ [NL],
               totalTokens = blocks_tokens pre,
               includedFiles = included_whole pre @ [(path f, True)],
               skippedFiles = []\<rparr>
         else \<lparr>context_text = blocks_text pre, totalTokens = blocks_tokens pre,
               includedFiles = included_whole pre, skippedFiles = [path f]\<rparr>)"
  proof
    assume h: "(with_content pre = [] \<or> blocks_tokens pre \<le> maxTokens) \<and> \<not> no_content f
        \<and> blocks_tokens pre + estimateTokens (fileBlock f) > maxTokens"
    then have "with_content pre = [] \<or> totalTokens st0 + blocks_tokens pre \<le> maxTokens"
      by (simp add: st0_def)
    from loop_prefix[OF this, of "f # post"]
    have "buildContextWithLimit (pre @ f # post) maxTokens
          = buildContext_loop maxTokens (f # post) (after pre st0)"
      by (simp add: buildContextWithLimit_def st0_def[symmetric])
    then show "buildContextWithLimit (pre @ f # post) maxTokens =
        (if maxTokens - blocks_tokens pre - 100 > 500
         then \<lparr>context_text = blocks_text pre @ fileHeader f
                  @ t_text (truncateToTokenLimit (content_of f)
                              (maxTokens - blocks_tokens pre - 100)) @ [NL],
               totalTokens = blocks_tokens pre,
               includedFiles = included_whole pre @ [(path f, True)],
               skippedFiles = []\<rparr>
         else \<lparr>context_text = blocks_text pre, totalTokens = blocks_tokens pre,
               includedFiles = included_whole pre, skippedFiles = [path f]\<rparr>)"
      using h by (simp add: after_st0)
  qed
  from a b truncated_prefix[of R c] show ?thesis by blast
qed

theorem context_assembly_witness:
  "buildContextWithLimit
     ([] @ \<lparr>path = of_ascii ''a.js'', content = Some (of_ascii ''const a = 1; const b = 2; const c = 3;''),
       fsize = None, sha = None, error = None\<rparr>
      # [\<lparr>path = of_ascii ''b.js'', content = Some (of_ascii ''const a = 1; const b = 2; const c = 3;''),
       fsize = None, sha = None, error = None\<rparr>]) 10
   = \<lparr>context_text = [], totalTokens = 0, includedFiles = [], skippedFiles = [of_ascii ''a.js'']\<rparr>
   \<and> buildContextWithLimit
       [\<lparr>path = of_ascii ''a.js'', content = Some (of_ascii ''x = 1''),
         fsize = None, sha = None, error = None\<rparr>] 80000
     = \<lparr>context_text = [NL] @ of_ascii ''--- FILE: a.js ---'' @ [NL] @ of_ascii ''x = 1'' @ [NL],
        totalTokens = 7, includedFiles = [(of_ascii ''a.js'', False)], skippedFiles = []\<rparr>
   \<and> (\<exists>n\<le>4. t_text (truncateToTokenLimit (of_ascii ''abcdefgh'') 1)
              = take n (of_ascii ''abcdefgh'') @ TRUNCATION_MARKER)"
proof -
  let ?fa = "\<lparr>path = of_ascii ''a.js'', content = Some (of_ascii ''const a = 1; const b = 2; const c = 3;''),
       fsize = None, sha = None, error = None\<rparr>"
  let ?fb = "\<lparr>path = of_ascii ''b.js'', content = Some (of_ascii ''const a = 1; const b = 2; const c = 3;''),
       fsize = None, sha = None, error = None\<rparr>"
  let ?fx = "\<lparr>path = of_ascii ''a.js'', content = Some (of_ascii ''x = 1''),
         fsize = None, sha = None, error = None\<rparr>"
  note defs = blocks_tokens_def blocks_text_def included_whole_def with_content_def
      no_content_def estimateTokens_def fileBlock_def fileHeader_def content_of_def
      CHARS_PER_TOKEN_def of_ascii_def
  have a: "buildContextWithLimit ([] @ ?fa # [?fb]) 10
     = \<lparr>context_text = [], totalTokens = 0, includedFiles = [], skippedFiles = [of_ascii ''a.js'']\<rparr>"
    using context_assembly_steps[where fs = "[]" and maxTokens = 10 and pre = "[]" and f = ?fa
        and post = "[?fb]" and c = "[]" and R = 0]
    by (simp add: defs)
  have b: "buildContextWithLimit [?fx] 80000
     = \<lparr>context_text = [NL] @ of_ascii ''--- FILE: a.js ---'' @ [NL] @ of_ascii ''x = 1'' @ [NL],
        totalTokens = 7, includedFiles = [(of_ascii ''a.js'', False)], skippedFiles = []\<rparr>"
    using context_assembly_steps[where fs = "[?fx]" and maxTokens = 80000 and pre = "[]" and f = ?fx
        and post = "[]" and c = "[]" and R = 0]
    by (simp add: defs)
  have c: "\<exists>n\<le>4. t_text (truncateToTokenLimit (of_ascii ''abcdefgh'') 1)
              = take n (of_ascii ''abcdefgh'') @ TRUNCATION_MARKER"
    using context_assembly_steps[where fs = "[]" and maxTokens = 10 and pre = "[]" and f = ?fa
        and post = "[]" and c = "of_ascii ''abcdefgh''" and R = 1]
    by (simp add: defs)
  from a b c show ?thesis by blast
qed

text \<open>
  C3 as stated fails: with two files that both exceed a budget of 10 tokens, only the
  first is recorded as skipped; the second is neither included nor skipped.
\<close>

theorem only_first_overflowing_file_is_skipped:
  "skippedFiles (buildContextWithLimit
     [\<lparr>path = of_ascii ''a.js'', content = Some (of_ascii ''const a = 1; const b = 2; const c = 3;''),
       fsize = None, sha = None, error = None\<rparr>,
      \<lparr>path = of_ascii ''b.js'', content = Some (of_ascii ''const a = 1; const b = 2; const c = 3;''),
       fsize = None, sha = None, error = None\<rparr>] 10)
   = [of_ascii ''a.js'']
   \<and> includedFiles (buildContextWithLimit
     [\<lparr>path = of_ascii ''a.js'', content = Some (of_ascii ''const a = 1; const b = 2; const c = 3;''),
       fsize = None, sha = None, error = None\<rparr>,
      \<lparr>path = of_ascii ''b.js'', content = Some (of_ascii ''const a = 1; const b = 2; const c = 3;''),
       fsize = None, sha = None, error = None\<rparr>] 10)
   = []"
  by (simp add: buildContextWithLimit_def no_content_def estimateTokens_def fileBlock_def
      fileHeader_def content_of_def CHARS_PER_TOKEN_def of_ascii_def)

section \<open>The pattern engine terminates on the rule tables\<close>

lemma ends_shorter:
  "e \<in> set (ends r cur) \<Longrightarrow>
     length (snd e) \<le> length (snd cur) \<and> (\<not> nullable r \<longrightarrow> length (snd e) < length (snd cur))"
proof (induction r cur arbitrary: e rule: ends.induct)
  case (1 P pv xs)
  then show ?case by (auto split: list.splits if_splits)
next
  case (2 cur)
  then show ?case by simp
next
  case (3 a b cur)
  from 3(3) obtain m where m: "m \<in> set (ends a cur)" "e \<in> set (ends b m)" by auto
  from 3(1)[OF m(1)] 3(2)[OF m(1) m(2)] show ?case by auto
next
  case (4 a b cur)
  from 4(3) have "e \<in> set (ends a cur) \<or> e \<in> set (ends b cur)" by simp
  then show ?case using 4(1)[of e] 4(2)[of e] by auto
next
  case (5 r cur)
  from 5(3) consider "e = cur"
    | m where "m \<in> set (ends r cur)" "length (snd m) < length (snd cur)" "e \<in> set (ends (Star r) m)"
    by (subst (asm) ends.simps(5)) auto
  then show ?case
  proof cases
    case 1
    then show ?thesis by simp
  next
    case 2
    have "m \<in> set (filter (\<lambda>e. length (snd e) < length (snd cur)) (ends r cur))"
      using 2 by simp
    from 5(2)[OF this 2(3)] 2(2) show ?thesis by simp
  qed
next
  case (6 pv xs)
  then show ?case by (auto split: if_splits)
qed

lemma find_match_sound:
  "find_match r pv xs = Some (k, e) \<Longrightarrow>
     k \<le> length xs \<and> (\<exists>pk es. ends r (pk, drop k xs) = e # es)"
proof (induction r pv xs arbitrary: k e rule: find_match.induct)
  case (1 r pv)
  then show ?case by (auto split: list.splits)
next
  case (2 r pv c cs)
  show ?case
  proof (cases "ends r (pv, c # cs)")
    case Nil
    with 2(2) obtain k' where k': "find_match r (Some c) cs = Some (k', e)" "k = Suc k'"
      by (auto split: prod.splits)
    from 2(1)[OF Nil k'(1)] k'(2) show ?thesis by auto
  next
    case (Cons a as)
    with 2(2) have "k = 0" "e = a" by auto
    with Cons show ?thesis by auto
  qed
qed

lemma find_match_progress:
  assumes "\<not> nullable r" "find_match r pv xs = Some (k, (pv', rest))"
  shows "length rest < length (drop k xs)"
proof -
  from find_match_sound[OF assms(2)] obtain pk es where
    "ends r (pk, drop k xs) = (pv', rest) # es" by auto
  then have "(pv', rest) \<in> set (ends r (pk, drop k xs))" by simp
  from ends_shorter[OF this] assms(1) show ?thesis by simp
qed

lemma exec_all_total:
  "\<not> nullable r \<Longrightarrow> \<exists>ms. exec_all r pv xs i = Some ms"
proof (induction r pv xs i rule: exec_all.induct)
  case (1 r pv xs i)
  show ?case
  proof (cases "find_match r pv xs")
    case None
    then show ?thesis by (simp add: exec_all.simps)
  next
    case (Some a)
    obtain k pv' rest where a: "a = (k, (pv', rest))" by (cases a) auto
    have pr: "length rest < length (drop k xs)"
      using find_match_progress[OF _ Some[unfolded a]] 1(2) by simp
    have "\<exists>ms. exec_all r pv' rest (i + k + (length (drop k xs) - length rest)) = Some ms"
      using 1(1)[OF Some[unfolded a] refl refl pr] 1(2) by simp
    then show ?thesis using Some a pr by (subst exec_all.simps) auto
  qed
qed

lemma nullable_seqs: "nullable (seqs rs) = list_all nullable rs"
  by (induction rs) (simp_all add: seqs_def)

lemma nullable_alts: "nullable (alts rs) = list_ex nullable rs"
  by (induction rs rule: alts.induct) simp_all

lemma nullable_lit: "nullable (lit s) = (s = [])"
  by (cases s) (simp_all add: lit_def nullable_seqs of_ascii_def chr_def)

lemma nullable_lit_ci: "nullable (lit_ci s) = (s = [])"
  by (cases s) (simp_all add: lit_ci_def nullable_seqs of_ascii_def chr_ci_def)

lemma nullable_rep: "nullable (rep n r) = (n = 0 \<or> nullable r)"
  by (induction n) auto

lemmas nullable_simps = nullable_seqs nullable_alts nullable_lit nullable_lit_ci nullable_rep
  at_least_def one_or_more_def optional_def chr_def chr_ci_def one_of_def none_of_def spaces_def quote_def
  not_quote_def colon_or_eq_def sep_def user_input_def

lemma library_patterns_not_nullable:
  "list_all (\<lambda>r. \<not> nullable (pattern r)) SECURITY_PATTERNS"
  by (simp add: SECURITY_PATTERNS_def mk_rule_def nullable_simps
      re_hardcoded_api_key_def re_hardcoded_secret_def re_aws_key_def re_private_key_def
      re_jwt_secret_def re_sql_injection_def re_raw_query_def re_innerhtml_def
      re_dangerously_set_html_def re_document_write_def re_exec_injection_def
      re_eval_usage_def re_path_traversal_def re_cors_wildcard_def re_https_disabled_def
      re_debug_enabled_def re_md5_usage_def re_sha1_usage_def re_no_auth_check_def)

lemma route_patterns_not_nullable:
  "list_all (\<lambda>r. \<not> nullable (pattern r)) ROUTE_SECURITY_PATTERNS"
  by (simp add: ROUTE_SECURITY_PATTERNS_def mk_rule_def nullable_simps
      re_hardcoded_api_key_def re_hardcoded_secret_def re_aws_key_def
      re_innerhtml_def re_dangerously_set_html_def re_eval_usage_def re_cors_wildcard_def
      re_md5_usage_def re_route_sql_injection_def re_route_exec_injection_def)

lemma scan_rules_total:
  "list_all (\<lambda>r. \<not> nullable (pattern r)) rs \<Longrightarrow> \<exists>found. scan_rules rs mk src = Some found"
proof (induction rs)
  case Nil
  then show ?case by simp
next
  case (Cons r rs)
  then obtain found where f: "scan_rules rs mk src = Some found" by auto
  from Cons.prems have "\<not> nullable (pattern r)" by simp
  from exec_all_total[OF this, of None src 0] obtain ms where
    "exec_all (pattern r) None src 0 = Some ms" by auto
  with f show ?case by simp
qed

lemma runPatternScan_total: "\<exists>found. runPatternScan fs = Some found"
proof (induction fs)
  case Nil
  then show ?case by simp
next
  case (Cons f fs)
  then obtain found where f: "runPatternScan fs = Some found" by auto
  obtain here where "scan_rules ROUTE_SECURITY_PATTERNS
      (route_finding_of (path f) (split_nl (content_of f))) (content_of f) = Some here"
    using scan_rules_total[OF route_patterns_not_nullable] by blast
  with f show ?case by simp
qed

lemma scanFile_total: "\<exists>found. scanFile lower filePath src = Some found"
  using scan_rules_total[OF library_patterns_not_nullable]
  by (auto simp: scanFile_def)

section \<open>The event streams of the two routes\<close>

lemma takeWhile_writes:
  "End \<notin> set ws \<Longrightarrow> takeWhile (\<lambda>a. a \<noteq> End) (ws @ End # es) = ws"
  by (induction ws) auto

lemma dropWhile_writes:
  "End \<notin> set ws \<Longrightarrow> dropWhile (\<lambda>a. a \<noteq> End) (ws @ End # es) = End # es"
  by (induction ws) auto

lemma well_terminated_iff:
  "End \<notin> set ws \<Longrightarrow>
   well_terminated (ws @ End # es) =
     (ws \<noteq> [] \<and> is_terminal (last ws) \<and> list_all (\<lambda>a. \<not> is_terminal a) (butlast ws)
      \<and> list_all (\<lambda>a. a = End) es)"
  by (simp add: well_terminated_def takeWhile_writes dropWhile_writes)

lemma status_not_terminal:
  "\<not> is_terminal (status m p)" "status m p \<noteq> End" "End \<noteq> status m p"
  by (simp_all add: status_def is_terminal_def STATUS_def COMPLETE_def DONE_def ERROR_def of_ascii_def)

lemma write_terminal:
  "is_terminal (Write ERROR d)" "is_terminal (Write DONE d)" "is_terminal (Write COMPLETE d)"
  "\<not> is_terminal (Write STATUS d)" "\<not> is_terminal (Write FILES d)" "\<not> is_terminal (Write CHUNK d)"
  by (simp_all add: is_terminal_def STATUS_def COMPLETE_def DONE_def ERROR_def FILES_def CHUNK_def
      of_ascii_def)

lemma chunk_events_plain:
  "End \<notin> set (chunk_events cs)" "list_all (\<lambda>a. \<not> is_terminal a) (chunk_events cs)"
  by (auto simp: chunk_events_def list_all_iff write_terminal)

lemma chat_stream_well_terminated:
  "well_terminated (chat_handler lower reply stream query tree owner repo)"
proof (cases tree)
  case None
  have eq: "chat_handler lower reply stream query tree owner repo
        = [status ''Analyzing query...'' 10,
           Write ERROR (ErrorData (message_or TypeError ''Failed to generate response''))] @ End # []"
    using None by (simp add: chat_handler_def)
  show ?thesis unfolding eq
    by (subst well_terminated_iff) (simp_all add: status_not_terminal write_terminal)
next
  case (Some t)
  define sel where "sel = selectRelevantFiles lower reply query t owner repo"
  define head where "head = [status ''Analyzing query...'' 10,
      Write FILES (FilesData (files sel) (reason sel) (length (files sel))),
      Write STATUS (StatusData (of_ascii ''Fetching '' @ show_nat (length (files sel))
                 @ of_ascii '' files...'') 30),
      status ''Generating response...'' 60]"
  have head: "End \<notin> set head" "list_all (\<lambda>a. \<not> is_terminal a) head"
    by (simp_all add: head_def status_not_terminal write_terminal)
  show ?thesis
  proof (cases stream)
    case (CreateFailed e)
    have eq: "chat_handler lower reply stream query tree owner repo
          = (head @ [Write ERROR (ErrorData (message_or e ''Failed to generate response''))]) @ End # []"
      using Some CreateFailed by (simp add: chat_handler_def head_def sel_def)
    show ?thesis unfolding eq
      by (subst well_terminated_iff) (use head in \<open>simp_all add: write_terminal\<close>)
  next
    case (Streamed cs failure)
    define body where "body = head @ status ''Streaming response...'' 80 # chunk_events cs"
    have body: "End \<notin> set body" "list_all (\<lambda>a. \<not> is_terminal a) body"
      using head chunk_events_plain[of cs] by (simp_all add: body_def status_not_terminal)
    show ?thesis
    proof (cases failure)
      case None
      have eq: "chat_handler lower reply stream query tree owner repo
          = (body @ [status ''Complete'' 100, Write DONE DoneData]) @ End # []"
        using Some Streamed None by (simp add: chat_handler_def head_def sel_def body_def)
      show ?thesis unfolding eq
        by (subst well_terminated_iff)
           (use body in \<open>simp_all add: write_terminal status_not_terminal butlast_append\<close>)
    next
      case (Some e)
      have eq: "chat_handler lower reply stream query tree owner repo
          = (body @ [Write ERROR (ErrorData (message_or e ''Failed to generate response''))]) @ End # []"
        using \<open>tree = Some t\<close> Streamed Some by (simp add: chat_handler_def head_def sel_def body_def)
      show ?thesis unfolding eq
        by (subst well_terminated_iff) (use body in \<open>simp_all add: write_terminal\<close>)
    qed
  qed
qed

lemma scan_failure_paths_well_terminated:
  "scan_handler lower g d bp now reply Missing = Some run \<Longrightarrow> well_terminated (actions run)"
  "scan_handler lower g d bp now reply Malformed = Some run \<Longrightarrow> well_terminated (actions run)"
  "codeFiles lower ps = [] \<Longrightarrow> scan_handler lower g d bp now reply (Paths ps) = Some run
     \<Longrightarrow> well_terminated (actions run)"
  by (auto simp: scan_handler_def well_terminated_def write_terminal)

lemma scan_success_trace:
  assumes "codeFiles lower ps \<noteq> []"
  shows "\<exists>run evs data. scan_handler lower g d bp now reply (Paths ps) = Some run
     \<and> actions run = evs @ [Write COMPLETE data, status ''Complete'' 100, End]
     \<and> \<not> well_terminated (actions run)"
proof -
  define fetched where "fetched = fetchFiles g d bp (codeFiles lower ps)"
  obtain pf where pf: "runPatternScan (fetch_results fetched) = Some pf"
    using runPatternScan_total by blast
  define found where "found = filteredFindings (deduplicateFindings
                                      (pf @ runAIScan now reply (fetch_results fetched)))"
  define evs where "evs = [Write STATUS (StatusData (of_ascii ''Scanning ''
           @ show_nat (length (codeFiles lower ps)) @ of_ascii '' files...'') 10)]
      @ fetch_events fetched
      @ [status ''Running pattern-based scan...'' 40, status ''Running AI analysis...'' 60,
         status ''Generating summary...'' 90]"
  define data where "data = CompleteData found (groupBySeverity found)
                                  (generateSummary found) (length (codeFiles lower ps))
                                  (length found)"
  define run where "run = \<lparr>actions = evs @ [Write COMPLETE data, status ''Complete'' 100, End],
      requested = fetch_requested fetched, scanned = fetch_results fetched\<rparr>"
  have r: "scan_handler lower g d bp now reply (Paths ps) = Some run"
    using assms pf
    by (simp add: scan_handler_def Let_def fetched_def[symmetric] found_def[symmetric]
        run_def evs_def data_def)
  have noend: "End \<notin> set (evs @ [Write COMPLETE data, status ''Complete'' 100])"
    by (auto simp: evs_def fetched_def fetchFiles_def status_not_terminal)
  have "\<not> well_terminated ((evs @ [Write COMPLETE data, status ''Complete'' 100]) @ End # [])"
    by (subst well_terminated_iff[OF noend]) (simp add: status_not_terminal)
  then have "\<not> well_terminated (actions run)" by (simp add: run_def)
  with r show ?thesis by (auto simp: run_def)
qed

text \<open>
  C1. For every scan or chat request exactly one terminal event (\<open>complete\<close>,
  \<open>done\<close> or \<open>error\<close>) is emitted, no event follows it, and the channel is
  closed right after it; the scan route's events are \<open>status\<close> events followed by a
  single \<open>complete\<close>. This holds on the chat route and on the failure paths of
  the scan route (the lemmas above). It fails on every successful scan: after
  \<open>complete\<close> the handler writes one more \<open>status\<close> event before it closes the
  channel, as the evaluation of a scan of the one code file \<open>a.js\<close> shows.
\<close>

theorem scan_writes_status_after_complete:
  "map_option actions
     (scan_handler ascii_toLowerCase example_remote example_decode (\<lambda>i n. 10) (\<lambda>k. 0)
        (AiFindings []) (Paths [of_ascii ''a.js'']))
   = Some [Write STATUS (StatusData (of_ascii ''Scanning 1 files...'') 10),
           Write STATUS (StatusData (of_ascii ''Fetching files (1/1)...'') 10),
           status ''Running pattern-based scan...'' 40,
           status ''Running AI analysis...'' 60,
           status ''Generating summary...'' 90,
           Write COMPLETE
             (CompleteData [] \<lparr>g_critical = [], g_high = [], g_medium = [], g_low = []\<rparr>
                (of_ascii ''No security vulnerabilities detected.'') 1 0),
           status ''Complete'' 100,
           End]"
  by code_simp

lemma codeFiles_idem: "codeFiles lower (codeFiles lower ps) = codeFiles lower ps"
proof -
  have "filter (\<lambda>p. lower (file_ext p) \<in> set ROUTE_CODE_EXTENSIONS) (codeFiles lower ps)
      = codeFiles lower ps"
    unfolding codeFiles_def by (rule filter_True) (auto dest: in_set_takeD)
  then show ?thesis by (simp add: codeFiles_def)
qed

lemma codeFiles_beyond:
  "20 \<le> length (filter (\<lambda>p. lower (file_ext p) \<in> set ROUTE_CODE_EXTENSIONS) pre)
   \<Longrightarrow> codeFiles lower (pre @ post) = codeFiles lower pre"
  by (simp add: codeFiles_def)

lemma scan_handler_of_codeFiles:
  assumes "codeFiles lower ps = codeFiles lower qs"
  shows "scan_handler lower g d bp now reply (Paths ps)
       = scan_handler lower g d bp now reply (Paths qs)"
  unfolding scan_handler_def body_paths.case assms by (rule refl)

lemma fetchFiles_one_cong: "g p = g' p \<Longrightarrow> fetchFiles_one g d p = fetchFiles_one g' d p"
  by (simp add: fetchFiles_one_def)

lemma fetchFiles_cong:
  assumes "\<forall>p\<in>set xs. g p = g' p"
  shows "fetchFiles g d bp xs = fetchFiles g' d bp xs"
proof -
  have m: "map (fetchFiles_one g d) xs = map (fetchFiles_one g' d) xs"
    using assms by (auto intro: fetchFiles_one_cong)
  have c: "concat (chunks 5 xs) = xs"
    by (simp add: chunks_concat)
  show ?thesis
    unfolding fetchFiles_def c m by (rule refl)
qed

text \<open>
  C10. The outcome of a scan request, every event it writes included, is a function
  of the first 20 paths whose extension is in the route's allow-list: the request
  with the whole path list has the outcome of the request with only these paths, so a
  path list that already holds 20 code files can be extended at will without effect;
  and the outcome depends on the remote only through its answers for these paths,
  whatever the remote holds at any other path. The handler returns, and the paths it
  asks of the remote are exactly these. The library's \<open>filterCodeFiles\<close> with its
  default limit returns at most 20 files and ignores what follows the twentieth code
  file.
\<close>

theorem scan_examines_first_20_code_files:
  "scan_handler lower g d bp now reply (Paths ps)
     = scan_handler lower g d bp now reply (Paths (codeFiles lower ps))
   \<and> length (codeFiles lower ps) \<le> 20
   \<and> (20 \<le> length (filter (\<lambda>p. lower (file_ext p) \<in> set ROUTE_CODE_EXTENSIONS) pre)
        \<longrightarrow> scan_handler lower g d bp now reply (Paths (pre @ post))
            = scan_handler lower g d bp now reply (Paths pre))
   \<and> ((\<forall>p\<in>set (codeFiles lower ps). g p = g' p)
        \<longrightarrow> scan_handler lower g d bp now reply (Paths ps)
            = scan_handler lower g' d bp now reply (Paths ps))
   \<and> map_option requested (scan_handler lower g d bp now reply (Paths ps))
       = Some (codeFiles lower ps)
   \<and> length (filterCodeFiles lower fs 20) \<le> 20
   \<and> (20 \<le> length (filter (\<lambda>f. lower (file_ext (path f)) \<in> set CODE_EXTENSIONS) fpre)
        \<longrightarrow> filterCodeFiles lower (fpre @ fpost) 20 = filterCodeFiles lower fpre 20)"
proof -
  have a: "scan_handler lower g d bp now reply (Paths ps)
     = scan_handler lower g d bp now reply (Paths (codeFiles lower ps))"
    by (rule scan_handler_of_codeFiles) (simp add: codeFiles_idem)
  have b: "length (codeFiles lower ps) \<le> 20"
    by (simp add: codeFiles_def)
  have c: "20 \<le> length (filter (\<lambda>p. lower (file_ext p) \<in> set ROUTE_CODE_EXTENSIONS) pre)
        \<longrightarrow> scan_handler lower g d bp now reply (Paths (pre @ post))
            = scan_handler lower g d bp now reply (Paths pre)"
    using scan_handler_of_codeFiles[OF codeFiles_beyond] by blast
  have d: "(\<forall>p\<in>set (codeFiles lower ps). g p = g' p)
        \<longrightarrow> scan_handler lower g d bp now reply (Paths ps)
            = scan_handler lower g' d bp now reply (Paths ps)"
  proof
    assume "\<forall>p\<in>set (codeFiles lower ps). g p = g' p"
    from fetchFiles_cong[OF this]
    have "fetchFiles g d bp (codeFiles lower ps) = fetchFiles g' d bp (codeFiles lower ps)" .
    then show "scan_handler lower g d bp now reply (Paths ps)
            = scan_handler lower g' d bp now reply (Paths ps)"
      unfolding scan_handler_def body_paths.case by simp
  qed
  have e: "length (filterCodeFiles lower fs 20) \<le> 20"
    by (simp add: filterCodeFiles_def slice0_def)
  have f: "20 \<le> length (filter (\<lambda>f. lower (file_ext (path f)) \<in> set CODE_EXTENSIONS) fpre)
        \<longrightarrow> filterCodeFiles lower (fpre @ fpost) 20 = filterCodeFiles lower fpre 20"
    by (simp add: filterCodeFiles_def slice0_def)
  have r: "map_option requested (scan_handler lower g d bp now reply (Paths ps))
       = Some (codeFiles lower ps)"
  proof (cases "codeFiles lower ps = []")
    case True
    then show ?thesis by (simp add: scan_handler_def)
  next
    case False
    obtain pf where
      pf: "runPatternScan (fetch_results (fetchFiles g d bp (codeFiles lower ps))) = Some pf"
      using runPatternScan_total by blast
    have req: "fetch_requested (fetchFiles g d bp (codeFiles lower ps)) = codeFiles lower ps"
      by (simp add: fetchFiles_def chunks_concat)
    show ?thesis
      using False pf req by (simp add: scan_handler_def Let_def)
  qed
  from a b c d e f r show ?thesis by blast
qed

theorem scan_cap_witness:
  "scan_handler ascii_toLowerCase example_remote example_decode (\<lambda>i n. 10) (\<lambda>k. 0) (AiFindings [])
      (Paths (replicate 20 (of_ascii ''a.js'') @ [of_ascii ''z.js'']))
   = scan_handler ascii_toLowerCase example_remote example_decode (\<lambda>i n. 10) (\<lambda>k. 0) (AiFindings [])
      (Paths (replicate 20 (of_ascii ''a.js'')))
   \<and> scan_handler ascii_toLowerCase example_remote example_decode (\<lambda>i n. 10) (\<lambda>k. 0) (AiFindings [])
      (Paths (replicate 20 (of_ascii ''a.js'') @ [of_ascii ''z.js'']))
   = scan_handler ascii_toLowerCase
      (example_remote
         (of_ascii ''z.js'' :=
            Inr (Single \<lparr>item_name = of_ascii ''z.js'', item_path = of_ascii ''z.js'',
                          item_type = FILE, item_size = 5,
                          item_content = of_ascii ''eCA9IDE='', item_sha = of_ascii ''1''\<rparr>)))
      example_decode (\<lambda>i n. 10) (\<lambda>k. 0) (AiFindings [])
      (Paths (replicate 20 (of_ascii ''a.js'') @ [of_ascii ''z.js'']))"
proof -
  have h: "ascii_toLowerCase (file_ext (of_ascii ''a.js'')) \<in> set ROUTE_CODE_EXTENSIONS"
    by (simp add: file_ext_def lastIndexOf_def substring_from_def DOT_def of_ascii_def
        ascii_toLowerCase_def ascii_lower_unit_def ROUTE_CODE_EXTENSIONS_def)
  have h20: "20 \<le> length (filter (\<lambda>p. ascii_toLowerCase (file_ext p) \<in> set ROUTE_CODE_EXTENSIONS)
                    (replicate 20 (of_ascii ''a.js'')))"
    using h by simp
  have cf: "codeFiles ascii_toLowerCase (replicate 20 (of_ascii ''a.js'') @ [of_ascii ''z.js''])
          = replicate 20 (of_ascii ''a.js'')"
    using h by (simp add: codeFiles_def)
  have ne: "of_ascii ''a.js'' \<noteq> of_ascii ''z.js''"
    by (simp add: of_ascii_def)
  let ?run = "scan_handler ascii_toLowerCase example_remote example_decode (\<lambda>i n. 10) (\<lambda>k. 0)
      (AiFindings [])"
  let ?g' = "example_remote
         (of_ascii ''z.js'' :=
            Inr (Single \<lparr>item_name = of_ascii ''z.js'', item_path = of_ascii ''z.js'',
                          item_type = FILE, item_size = 5,
                          item_content = of_ascii ''eCA9IDE='', item_sha = of_ascii ''1''\<rparr>))"
  let ?ps = "replicate 20 (of_ascii ''a.js'') @ [of_ascii ''z.js'']"
  note t = scan_examines_first_20_code_files[where lower = ascii_toLowerCase and g = example_remote
        and d = example_decode and bp = "\<lambda>i n. 10" and now = "\<lambda>k. 0" and reply = "AiFindings []"
        and ps = ?ps
        and pre = "replicate 20 (of_ascii ''a.js'')" and post = "[of_ascii ''z.js'']"
        and g' = ?g' and fs = "[]" and fpre = "[]" and fpost = "[]"]
  from t h20 have one: "?run (Paths ?ps) = ?run (Paths (replicate 20 (of_ascii ''a.js'')))"
    by blast
  have agree: "\<forall>p\<in>set (codeFiles ascii_toLowerCase ?ps). example_remote p = ?g' p"
    using ne by (simp add: cf)
  from t agree have two: "?run (Paths ?ps)
      = scan_handler ascii_toLowerCase ?g' example_decode (\<lambda>i n. 10) (\<lambda>k. 0) (AiFindings [])
          (Paths ?ps)"
    by blast
  from one two show ?thesis by (rule conjI)
qed

section \<open>Scenario B: a hardcoded API key is reported at its line\<close>

lemmas re_simps = seqs_def lit_ci_def lit_def chr_def chr_ci_def one_of_def none_of_def
  optional_def one_or_more_def at_least_def spaces_def quote_def not_quote_def colon_or_eq_def
  sep_def of_ascii_def

lemma ends_Star_Cls_Nil: "ends (Star (Cls P)) (pv, []) = [(pv, [])]"
  by (subst ends.simps(5)) simp

lemma ends_Star_Cls_Cons:
  "ends (Star (Cls P)) (pv, c # cs) =
     (if P c then ends (Star (Cls P)) (Some c, cs) @ [(pv, c # cs)] else [(pv, c # cs)])"
  by (subst ends.simps(5)) simp

lemma ends_rep_Cls:
  "length w = n \<Longrightarrow> list_all P w \<Longrightarrow>
   ends (rep n (Cls P)) (pv, w @ r) = [(if w = [] then pv else Some (last w), r)]"
proof (induction w arbitrary: n pv)
  case Nil
  then show ?case by simp
next
  case (Cons c w)
  then obtain m where n: "n = Suc m" "length w = m" by (cases n) auto
  from Cons.IH[OF n(2), of "Some c"] Cons.prems(2) n show ?case by simp
qed

lemma keyword_at_target:
  "ends (alts [seqs [lit_ci ''api'', optional sep, lit_ci ''key''], lit_ci ''apikey''])
     (pv, 0x61 # 0x70 # 0x69 # 0x4B # 0x65 # 0x79 # rest) = [(Some 0x79, rest), (Some 0x79, rest)]"
  by (simp add: re_simps ascii_lower_unit_def)

lemma assignment_at_target:
  "ends (seqs [spaces, colon_or_eq, spaces, quote]) (pv, 0x20 # 0x3D # 0x20 # 0x22 # rest)
    = [(Some 0x22, rest)]"
  by (simp add: re_simps ends_Star_Cls_Cons is_space_unit_def)

lemma value_at_target:
  "ends (seqs [at_least 20 (Cls is_key_unit), quote])
     (pv, of_ascii ''sk-aaaaaaaaaaaaaaaaa'' @ of_ascii ''aaaaaaa\"'' @ rest)
    = [(Some 0x22, rest)]"
proof -
  have w: "length (of_ascii ''sk-aaaaaaaaaaaaaaaaa'') = 20"
    "list_all is_key_unit (of_ascii ''sk-aaaaaaaaaaaaaaaaa'')"
    by (simp_all add: of_ascii_def is_key_unit_def is_word_unit_def)
  have a: "ends (rep 20 (Cls is_key_unit))
       (pv, of_ascii ''sk-aaaaaaaaaaaaaaaaa'' @ of_ascii ''aaaaaaa\"'' @ rest)
     = [(Some 0x61, of_ascii ''aaaaaaa\"'' @ rest)]"
    using ends_rep_Cls[OF w, of pv "of_ascii ''aaaaaaa\"'' @ rest"] by (simp add: of_ascii_def)
  have b: "concat (map (ends (Seq quote Eps))
             (ends (Star (Cls is_key_unit)) (Some 0x61, of_ascii ''aaaaaaa\"'' @ rest)))
           = [(Some 0x22, rest)]"
    by (simp add: re_simps ends_Star_Cls_Cons is_key_unit_def is_word_unit_def)
  show ?thesis
    by (simp add: seqs_def at_least_def a b)
qed

lemma concat_map_concat:
  "concat (map f (concat xss)) = concat (map (\<lambda>xs. concat (map f xs)) xss)"
  by (induction xss) simp_all

lemma seqs_append: "ends (seqs (rs @ ss)) cur = concat (map (ends (seqs ss)) (ends (seqs rs) cur))"
proof (induction rs arbitrary: cur)
  case Nil
  then show ?case by (simp add: seqs_def)
next
  case (Cons r rs)
  have "ends (seqs (rs @ ss)) = (\<lambda>c. concat (map (ends (seqs ss)) (ends (seqs rs) c)))"
    using Cons.IH by (intro ext)
  then show ?case by (simp add: seqs_def concat_map_concat comp_def)
qed

lemma match_at_target:
  "ends re_hardcoded_api_key (pv, API_KEY_MATCH @ rest) = [(Some 0x22, rest), (Some 0x22, rest)]"
proof -
  have split: "re_hardcoded_api_key =
      Seq (alts [seqs [lit_ci ''api'', optional sep, lit_ci ''key''], lit_ci ''apikey''])
        (seqs ([spaces, colon_or_eq, spaces, quote] @ [at_least 20 (Cls is_key_unit), quote]))"
    by (simp add: re_hardcoded_api_key_def seqs_def)
  have input: "API_KEY_MATCH @ rest =
      0x61 # 0x70 # 0x69 # 0x4B # 0x65 # 0x79 # 0x20 # 0x3D # 0x20 # 0x22 #
      (of_ascii ''sk-aaaaaaaaaaaaaaaaa'' @ of_ascii ''aaaaaaa\"'' @ rest)"
    by (simp add: API_KEY_MATCH_def of_ascii_def)
  show ?thesis
    unfolding split input
    apply (simp only: ends.simps(3) keyword_at_target seqs_append assignment_at_target
        value_at_target list.map)
    apply simp
    done
qed

lemma ends_consumed:
  "e \<in> set (ends r cur) \<Longrightarrow> \<exists>w. snd cur = w @ snd e \<and> list_all (alphabet r) w"
proof (induction r cur arbitrary: e rule: ends.induct)
  case (1 P pv xs)
  then show ?case by (cases xs) (auto split: if_splits)
next
  case (2 cur)
  then show ?case by simp
next
  case (3 a b cur)
  from 3(3) obtain m where m: "m \<in> set (ends a cur)" "e \<in> set (ends b m)" by auto
  from 3(1)[OF m(1)] obtain w1 where w1: "snd cur = w1 @ snd m" "list_all (alphabet a) w1" by auto
  from 3(2)[OF m(1) m(2)] obtain w2 where w2: "snd m = w2 @ snd e" "list_all (alphabet b) w2" by auto
  have "snd cur = (w1 @ w2) @ snd e" using w1 w2 by simp
  moreover have "list_all (alphabet (Seq a b)) (w1 @ w2)"
    using w1(2) w2(2) by (auto simp: list_all_iff)
  ultimately show ?case by blast
next
  case (4 a b cur)
  from 4(3) have "e \<in> set (ends a cur) \<or> e \<in> set (ends b cur)" by simp
  then show ?case
  proof
    assume "e \<in> set (ends a cur)"
    from 4(1)[OF this] show ?thesis by (auto simp: list_all_iff)
  next
    assume "e \<in> set (ends b cur)"
    from 4(2)[OF this] show ?thesis by (auto simp: list_all_iff)
  qed
next
  case (5 r cur)
  from 5(3) consider "e = cur"
    | m where "m \<in> set (ends r cur)" "length (snd m) < length (snd cur)" "e \<in> set (ends (Star r) m)"
    by (subst (asm) ends.simps(5)) auto
  then show ?case
  proof cases
    case 1
    then show ?thesis by simp
  next
    case 2
    have mf: "m \<in> set (filter (\<lambda>e. length (snd e) < length (snd cur)) (ends r cur))"
      using 2 by simp
    from 5(1)[OF 2(1)] obtain w1 where w1: "snd cur = w1 @ snd m" "list_all (alphabet r) w1" by auto
    from 5(2)[OF mf 2(3)] obtain w2 where w2: "snd m = w2 @ snd e" "list_all (alphabet r) w2"
      by (auto simp: list_all_iff)
    have "snd cur = (w1 @ w2) @ snd e" using w1 w2 by simp
    moreover have "list_all (alphabet (Star r)) (w1 @ w2)"
      using w1(2) w2(2) by (auto simp: list_all_iff)
    ultimately show ?thesis by blast
  qed
next
  case (6 pv xs)
  then show ?case by (auto split: if_splits)
qed

lemma stop_at:
  "u @ x # t = w @ ys \<Longrightarrow> x \<notin> set w \<Longrightarrow> \<exists>u'. ys = u' @ x # t \<and> u = w @ u'"
proof (induction w arbitrary: u)
  case Nil
  then show ?case by simp
next
  case (Cons a w)
  then obtain u1 where u: "u = a # u1" by (cases u) auto
  with Cons.prems have "u1 @ x # t = w @ ys" "x \<notin> set w" by auto
  from Cons.IH[OF this] u show ?case by auto
qed

lemma stays_before:
  assumes "\<not> alphabet r x" "e \<in> set (ends r (pv, u @ x # t))"
  shows "\<exists>u'. snd e = u' @ x # t"
proof -
  from ends_consumed[OF assms(2)] obtain w where
    w: "u @ x # t = w @ snd e" "list_all (alphabet r) w" by auto
  have "x \<notin> set w" using w(2) assms(1) by (auto simp: list_all_iff)
  from stop_at[OF w(1) this] show ?thesis by blast
qed

lemma spaces_then_class:
  assumes P: "\<not> P 0x20" "\<not> P 0x61"
    and tail: "\<And>pv u e. e \<in> set (ends r' (pv, u @ 0x20 # 0x61 # t)) \<Longrightarrow> \<exists>u'. snd e = u' @ 0x20 # 0x61 # t"
    and e: "e \<in> set (ends (Seq spaces (Seq (Cls P) r')) (pv, u @ 0x20 # 0x61 # t))"
  shows "\<exists>u'. snd e = u' @ 0x20 # 0x61 # t"
proof -
  from e obtain m e1 where m: "m \<in> set (ends spaces (pv, u @ 0x20 # 0x61 # t))"
    and e1: "e1 \<in> set (ends (Cls P) m)" and e2: "e \<in> set (ends r' e1)"
    by auto
  have "\<not> alphabet spaces 0x61" by (simp add: spaces_def is_space_unit_def)
  moreover have "m \<in> set (ends spaces (pv, (u @ [0x20]) @ 0x61 # t))" using m by simp
  ultimately obtain w where w: "(u @ [0x20]) @ 0x61 # t = w @ snd m" "0x61 \<notin> set w"
    using ends_consumed[of m spaces "(pv, (u @ [0x20]) @ 0x61 # t)"]
    by (auto simp: list_all_iff)
  from stop_at[OF w] obtain u1 where u1: "snd m = u1 @ 0x61 # t" "u @ [0x20] = w @ u1" by blast
  obtain pm where pm: "m = (pm, u1 @ 0x61 # t)" using u1(1) by (cases m) auto
  show ?thesis
  proof (cases u1 rule: rev_cases)
    case Nil
    with e1 pm P(2) show ?thesis by simp
  next
    case (snoc u2 c)
    with u1(2) have c: "c = 0x20" by (metis append_assoc last_snoc)
    have sm: "m = (pm, u2 @ 0x20 # 0x61 # t)" using pm snoc c by simp
    show ?thesis
    proof (cases u2)
      case Nil
      with e1 sm P(1) show ?thesis by simp
    next
      case (Cons d u3)
      with e1 sm have "e1 = (Some d, u3 @ 0x20 # 0x61 # t)" by (auto split: if_splits)
      with e2 tail show ?thesis by blast
    qed
  qed
qed

lemma alphabet_seqs: "alphabet (seqs rs) c = list_ex (\<lambda>r. alphabet r c) rs"
  by (induction rs) (simp_all add: seqs_def)

lemma alphabet_alts: "alphabet (alts rs) c = list_ex (\<lambda>r. alphabet r c) rs"
  by (induction rs rule: alts.induct) simp_all

lemma alphabet_rep: "alphabet (rep n r) c = (n \<noteq> 0 \<and> alphabet r c)"
  by (induction n) auto

lemma api_key_match_stays_before_space:
  assumes "e \<in> set (ends re_hardcoded_api_key (pv, u @ 0x20 # 0x61 # t))"
  shows "\<exists>u'. snd e = u' @ 0x20 # 0x61 # t"
proof -
  define kw where "kw = alts [seqs [lit_ci ''api'', optional sep, lit_ci ''key''], lit_ci ''apikey'']"
  define tail0 where "tail0 = seqs [at_least 20 (Cls is_key_unit), quote]"
  define tail1 where "tail1 = Seq spaces (Seq (Cls (\<lambda>x. x \<in> set [0x27, 0x22])) tail0)"
  define tail2 where "tail2 = Seq spaces (Seq (Cls (\<lambda>x. x \<in> set [0x3A, 0x3D])) tail1)"
  have shape: "re_hardcoded_api_key = Seq kw tail2"
    by (simp add: re_hardcoded_api_key_def seqs_def kw_def tail0_def tail1_def tail2_def
        quote_def colon_or_eq_def one_of_def)
  have kw: "\<not> alphabet kw 0x20"
    by (simp add: kw_def alphabet_alts alphabet_seqs lit_ci_def chr_ci_def optional_def sep_def
        one_of_def of_ascii_def ascii_lower_unit_def)
  have t0: "\<not> alphabet tail0 0x20"
    by (simp add: tail0_def alphabet_seqs at_least_def alphabet_rep quote_def one_of_def
        is_key_unit_def is_word_unit_def)
  have k0: "\<exists>u'. snd e = u' @ 0x20 # 0x61 # t"
    if "e \<in> set (ends tail0 (pv, u @ 0x20 # 0x61 # t))" for pv u e
    using stays_before[OF t0 that] .
  have k1: "\<exists>u'. snd e = u' @ 0x20 # 0x61 # t"
    if "e \<in> set (ends tail1 (pv, u @ 0x20 # 0x61 # t))" for pv u e
    using that unfolding tail1_def by (rule spaces_then_class[rotated 3]) (simp_all add: k0)
  have k2: "\<exists>u'. snd e = u' @ 0x20 # 0x61 # t"
    if "e \<in> set (ends tail2 (pv, u @ 0x20 # 0x61 # t))" for pv u e
    using that unfolding tail2_def by (rule spaces_then_class[rotated 3]) (simp_all add: k1)
  from assms obtain m where m: "m \<in> set (ends kw (pv, u @ 0x20 # 0x61 # t))" "e \<in> set (ends tail2 m)"
    unfolding shape by auto
  from stays_before[OF kw m(1)] obtain u1 where "snd m = u1 @ 0x20 # 0x61 # t" by blast
  then obtain pm where "m = (pm, u1 @ 0x20 # 0x61 # t)" by (cases m) auto
  with m(2) k2 show ?thesis by blast
qed

lemma no_match_at_space: "ends re_hardcoded_api_key (pv, 0x20 # xs) = []"
  by (simp add: re_hardcoded_api_key_def re_simps ascii_lower_unit_def)

lemma api_key_match_head: "\<exists>am. API_KEY_MATCH = 0x61 # am"
  by (simp add: API_KEY_MATCH_def of_ascii_def)

lemma api_key_not_nullable: "\<not> nullable re_hardcoded_api_key"
  by (simp add: re_hardcoded_api_key_def nullable_simps)

lemma find_match_target:
  "\<exists>k e. find_match re_hardcoded_api_key pv (u @ 0x20 # API_KEY_MATCH @ rest) = Some (k, e)
     \<and> ((k = length u + 1 \<and> e = (Some 0x22, rest))
        \<or> (k < length u
            \<and> (\<exists>u'. snd e = u' @ 0x20 # API_KEY_MATCH @ rest \<and> length u' < length u - k)))"
proof (induction u arbitrary: pv)
  case Nil
  obtain am where am: "API_KEY_MATCH = 0x61 # am" using api_key_match_head by blast
  have "find_match re_hardcoded_api_key (Some 0x20) (API_KEY_MATCH @ rest) = Some (0, (Some 0x22, rest))"
    using match_at_target[of "Some 0x20" rest] by (simp add: am)
  then show ?case by (simp add: no_match_at_space)
next
  case (Cons c u)
  show ?case
  proof (cases "ends re_hardcoded_api_key (pv, c # u @ 0x20 # API_KEY_MATCH @ rest)")
    case Nil
    from Cons.IH[of "Some c"] obtain k e where
      ke: "find_match re_hardcoded_api_key (Some c) (u @ 0x20 # API_KEY_MATCH @ rest) = Some (k, e)"
      "(k = length u + 1 \<and> e = (Some 0x22, rest))
        \<or> (k < length u
            \<and> (\<exists>u'. snd e = u' @ 0x20 # API_KEY_MATCH @ rest \<and> length u' < length u - k))"
      by blast
    have "find_match re_hardcoded_api_key pv ((c # u) @ 0x20 # API_KEY_MATCH @ rest) = Some (Suc k, e)"
      using Nil ke(1) by simp
    with ke(2) show ?thesis by auto
  next
    case (Cons e es)
    obtain am where am: "API_KEY_MATCH = 0x61 # am" using api_key_match_head by blast
    have mem: "e \<in> set (ends re_hardcoded_api_key (pv, (c # u) @ 0x20 # 0x61 # (am @ rest)))"
      using Cons by (simp add: am)
    from api_key_match_stays_before_space[OF mem] obtain u' where
      u': "snd e = u' @ 0x20 # API_KEY_MATCH @ rest" by (auto simp: am)
    from ends_shorter[OF mem] api_key_not_nullable
    have "length (snd e) < length ((c # u) @ 0x20 # 0x61 # (am @ rest))" by simp
    with u' have "length u' < length (c # u)" by (simp add: am)
    moreover have "find_match re_hardcoded_api_key pv ((c # u) @ 0x20 # API_KEY_MATCH @ rest) = Some (0, e)"
      using Cons by simp
    ultimately show ?thesis using u' by auto
  qed
qed

lemma exec_all_reports_target:
  "\<exists>ms mt. exec_all re_hardcoded_api_key pv (u @ 0x20 # API_KEY_MATCH @ rest) i = Some ms
     \<and> (i + length u + 1, mt) \<in> set ms"
proof (induction "length u" arbitrary: u pv i rule: less_induct)
  case less
  let ?S = "0x20 # API_KEY_MATCH @ rest"
  from find_match_target[of pv u rest] obtain k e where
    fm: "find_match re_hardcoded_api_key pv (u @ ?S) = Some (k, e)"
    and alt: "(k = length u + 1 \<and> e = (Some 0x22, rest))
        \<or> (k < length u \<and> (\<exists>u'. snd e = u' @ ?S \<and> length u' < length u - k))"
    by blast
  obtain pv' rst where e: "e = (pv', rst)" by (cases e) auto
  from alt show ?case
  proof
    assume a: "k = length u + 1 \<and> e = (Some 0x22, rest)"
    then have dr: "drop k (u @ ?S) = API_KEY_MATCH @ rest" by simp
    have pos: "length rest < length (API_KEY_MATCH @ rest)"
      by (simp add: API_KEY_MATCH_def of_ascii_def)
    obtain ms' where ms': "exec_all re_hardcoded_api_key (Some 0x22) rest
        (i + k + (length (API_KEY_MATCH @ rest) - length rest)) = Some ms'"
      using exec_all_total[OF api_key_not_nullable] by blast
    have "exec_all re_hardcoded_api_key pv (u @ ?S) i
        = Some ((i + k, take (length (API_KEY_MATCH @ rest) - length rest) (API_KEY_MATCH @ rest)) # ms')"
      using fm a pos ms' by (subst exec_all.simps) (simp add: dr)
    then show ?thesis using a by auto
  next
    assume b: "k < length u \<and> (\<exists>u'. snd e = u' @ ?S \<and> length u' < length u - k)"
    then obtain u' where u': "rst = u' @ ?S" "length u' < length u - k" using e by auto
    have len: "length (drop k (u @ ?S)) = length u - k + length ?S" using b by simp
    have pos: "length rst < length (drop k (u @ ?S))" using u' len by simp
    define i' where "i' = i + k + (length (drop k (u @ ?S)) - length rst)"
    have idx: "i' + length u' + 1 = i + length u + 1"
      using u' b len by (simp add: i'_def)
    have "length u' < length u" using u'(2) by simp
    from less[OF this, of pv' i']
    obtain ms' mt where ms': "exec_all re_hardcoded_api_key pv' (u' @ ?S) i' = Some ms'"
      "(i' + length u' + 1, mt) \<in> set ms'"
      by blast
    from ms'(2) have tgt: "(i + length u + 1, mt) \<in> set ms'" by (simp only: idx)
    have "exec_all re_hardcoded_api_key pv (u @ ?S) i
        = Some ((i + k, take (length (drop k (u @ ?S)) - length rst) (drop k (u @ ?S))) # ms')"
      using fm e pos ms'(1) u'(1) unfolding i'_def by (subst exec_all.simps) simp
    then show ?thesis using tgt by auto
  qed
qed

lemma line_in_text:
  "k < length (split_nl src) \<Longrightarrow>
     \<exists>pre post. src = pre @ (split_nl src ! k) @ post \<and> length pre = line_start (split_nl src) k"
proof (induction src arbitrary: k)
  case Nil
  then show ?case by (simp add: line_start_def)
next
  case (Cons c cs)
  show ?case
  proof (cases "c = NL")
    case True
    show ?thesis
    proof (cases k)
      case 0
      then show ?thesis using True by (simp add: line_start_def)
    next
      case (Suc k')
      with Cons.prems True have "k' < length (split_nl cs)" by simp
      from Cons.IH[OF this] obtain pre post where
        "cs = pre @ (split_nl cs ! k') @ post" "length pre = line_start (split_nl cs) k'" by blast
      then have "c # cs = (c # pre) @ (split_nl (c # cs) ! k) @ post
          \<and> length (c # pre) = line_start (split_nl (c # cs)) k"
        using True Suc by (simp add: line_start_def)
      then show ?thesis by blast
    qed
  next
    case False
    obtain l ls where ls: "split_nl cs = l # ls"
      using split_nl_nonempty[of cs] by (cases "split_nl cs") auto
    have sp: "split_nl (c # cs) = (c # l) # ls" using False ls by simp
    show ?thesis
    proof (cases k)
      case 0
      have "0 < length (split_nl cs)" using ls by simp
      from Cons.IH[OF this] obtain pre post where
        p: "cs = pre @ (split_nl cs ! 0) @ post" "length pre = line_start (split_nl cs) 0" by blast
      then have "pre = []" by (simp add: line_start_def)
      with p ls have "c # cs = [] @ (c # l) @ post" by simp
      then show ?thesis using 0 sp by (auto simp: line_start_def)
    next
      case (Suc k')
      have "k < length (split_nl cs)" using Cons.prems sp ls by simp
      from Cons.IH[OF this] obtain pre post where
        p: "cs = pre @ (split_nl cs ! k) @ post" "length pre = line_start (split_nl cs) k" by blast
      have "c # cs = (c # pre) @ (split_nl (c # cs) ! k) @ post
          \<and> length (c # pre) = line_start (split_nl (c # cs)) k"
        using p Suc sp ls by (simp add: line_start_def)
      then show ?thesis by blast
    qed
  qed
qed

lemma line_loop_in_line:
  "k < length lines \<Longrightarrow> j \<le> length (lines ! k) \<Longrightarrow>
     line_loop lines i cc (cc + line_start lines k + j) = i + k + 1"
proof (induction lines arbitrary: k i cc)
  case Nil
  then show ?case by simp
next
  case (Cons l ls)
  show ?case
  proof (cases k)
    case 0
    with Cons.prems show ?thesis by (simp add: line_start_def)
  next
    case (Suc k')
    with Cons.prems have "k' < length ls" "j \<le> length (ls ! k')" by simp_all
    from Cons.IH[OF this, of "i + 1" "cc + (length l + 1)"] Suc
    show ?thesis by (simp add: line_start_def add.assoc)
  qed
qed

text \<open>
  C5. For every file whose extension is in the code-file allow-list and whose content
  has the line \<open>const apiKey = "sk-aaaaaaaaaaaaaaaaaaaaaaaa";\<close> as line \<open>k + 1\<close> of
  its split at line feeds, scanning the file returns findings, one of which has type
  \<open>Hardcoded Secret\<close>, severity \<open>critical\<close> and line \<open>k + 1\<close>.
\<close>

theorem api_key_line_is_reported:
  assumes "lower (file_ext filePath) \<in> set CODE_EXTENSIONS"
    and "k < length (split_nl src)"
    and "split_nl src ! k = API_KEY_LINE"
  shows "\<exists>found f. scanFile lower filePath src = Some found \<and> f \<in> set found
     \<and> ftype f = of_ascii ''Hardcoded Secret'' \<and> severity f = of_ascii ''critical''
     \<and> line f = Number (int k + 1)"
proof -
  from line_in_text[OF assms(2)] assms(3) obtain pre post where
    src: "src = pre @ API_KEY_LINE @ post" and pre: "length pre = line_start (split_nl src) k"
    by auto
  define u where "u = pre @ of_ascii ''const''"
  have src': "src = u @ 0x20 # API_KEY_MATCH @ (of_ascii '';'' @ post)"
    by (simp add: src u_def API_KEY_LINE_def of_ascii_def)
  from exec_all_reports_target[of None u "of_ascii '';'' @ post" 0] obtain ms mt where
    ms: "exec_all re_hardcoded_api_key None src 0 = Some ms" "(length u + 1, mt) \<in> set ms"
    unfolding src' by auto
  have pos: "length u + 1 = 0 + line_start (split_nl src) k + 6"
    by (simp add: u_def pre of_ascii_def)
  have "6 \<le> length (split_nl src ! k)"
    by (simp add: assms(3) API_KEY_LINE_def API_KEY_MATCH_def of_ascii_def)
  from line_loop_in_line[OF assms(2) this, of 0 0]
  have ln: "lineNumber (split_nl src) (Suc (length u)) = Suc k"
    unfolding lineNumber_def using pos by (simp add: add.commute)
  define r1 where "r1 = mk_rule ''hardcoded-api-key'' ''Hardcoded Secret'' CRITICAL re_hardcoded_api_key
       ''Hardcoded API Key'' ''API key appears to be hardcoded in source code''
       ''Move API keys to environment variables''"
  obtain rs where rs: "SECURITY_PATTERNS = r1 # rs"
    by (simp add: SECURITY_PATTERNS_def r1_def)
  have "list_all (\<lambda>r. \<not> nullable (pattern r)) rs"
    using library_patterns_not_nullable by (simp add: rs)
  from scan_rules_total[OF this] obtain others where
    others: "scan_rules rs (finding_of filePath (split_nl src)) src = Some others" by blast
  define f where "f = finding_of filePath (split_nl src) r1 (length u + 1, mt)"
  have nonempty: "src \<noteq> []" by (simp add: src')
  have "scanFile lower filePath src
      = Some (map (finding_of filePath (split_nl src) r1) ms @ others)"
    using assms(1) nonempty ms(1) others
    by (simp add: scanFile_def rs r1_def mk_rule_def)
  moreover have "f \<in> set (map (finding_of filePath (split_nl src) r1) ms @ others)"
    using ms(2) by (auto simp: f_def)
  moreover have "ftype f = of_ascii ''Hardcoded Secret''" "severity f = of_ascii ''critical''"
    "line f = Number (int k + 1)"
    by (simp_all add: f_def finding_of_def r1_def mk_rule_def CRITICAL_def ln)
  ultimately show ?thesis by blast
qed

theorem api_key_line_witness:
  "\<exists>found f. scanFile ascii_toLowerCase (of_ascii ''src/config.JS'') example_source = Some found
     \<and> f \<in> set found
     \<and> ftype f = of_ascii ''Hardcoded Secret'' \<and> severity f = of_ascii ''critical''
     \<and> line f = Number 2"
proof -
  have a: "ascii_toLowerCase (file_ext (of_ascii ''src/config.JS'')) \<in> set CODE_EXTENSIONS"
    by (simp add: file_ext_def lastIndexOf_def substring_from_def DOT_def of_ascii_def
        ascii_toLowerCase_def ascii_lower_unit_def CODE_EXTENSIONS_def)
  have sp: "split_nl example_source = [of_ascii ''// config'', API_KEY_LINE, []]"
    by (simp add: example_source_def API_KEY_LINE_def API_KEY_MATCH_def of_ascii_def NL_def)
  have b: "1 < length (split_nl example_source)" "split_nl example_source ! 1 = API_KEY_LINE"
    by (simp_all add: sp)
  from api_key_line_is_reported[where lower = ascii_toLowerCase
      and filePath = "of_ascii ''src/config.JS''" and src = example_source and k = 1, OF a b]
  show ?thesis by simp
qed

end
